theory Spec2Isabelle
  imports Main "HOL-Library.AList" "HOL-Library.Multiset"
begin

section \<open>Aggregate statistics reducer (AggregateStatistics.js)\<close>

text \<open>
  The reducer calls three services of the JavaScript runtime: the \<^verbatim>\<open>URL\<close> constructor and
  the local-calendar accessors \<^verbatim>\<open>getDay\<close> and \<^verbatim>\<open>getHours\<close> of \<^verbatim>\<open>Date\<close>. They are not code of
  the repository, so the model takes them as a parameter: \<open>urlHostname h u\<close> is
  \<^verbatim>\<open>new URL(u).hostname\<close>, or \<open>None\<close> when the constructor throws; \<open>dateGetDay h t\<close> and
  \<open>dateGetHours h t\<close> are \<^verbatim>\<open>new Date(t).getDay()\<close> and \<^verbatim>\<open>new Date(t).getHours()\<close>.
  Numbers are modelled as integers and strings as lists of (ASCII) characters.
\<close>

record host =
  urlHostname :: "string \<Rightarrow> string option"
  dateGetDay :: "int \<Rightarrow> int"
  dateGetHours :: "int \<Rightarrow> int"

subsection \<open>StorageStatistics\<close>

text \<open>
  \<^verbatim>\<open>computeStats\<close>: \<^verbatim>\<open>setup()\<close>, then \<^verbatim>\<open>compute(entry, stats)\<close> for each entry of
  \<^verbatim>\<open>Object.entries(storageInstance)\<close> in enumeration order, then \<^verbatim>\<open>gather(stats)\<close>. The storage
  instance is the list of its (key, record) entries in that order.
\<close>

definition computeStats ::
  "(unit \<Rightarrow> 's) \<Rightarrow> ('e \<Rightarrow> 's \<Rightarrow> 's) \<Rightarrow> ('s \<Rightarrow> 'r) \<Rightarrow> 'e list \<Rightarrow> 'r" where
  "computeStats setup compute gather storageInstance =
     gather (fold compute storageInstance (setup ()))"

subsection \<open>getDomain and getHostName\<close>

definition getDomain :: "host \<Rightarrow> string \<Rightarrow> string" where
  "getDomain h url = (case urlHostname h url of None \<Rightarrow> [] | Some hostname \<Rightarrow> hostname)"



definition isDigit :: "char \<Rightarrow> bool" where
  "isDigit c = (c \<in> set ''0123456789'')"





subsection \<open>Page navigation\<close>

text \<open>Line 142: \<^verbatim>\<open>var timeOfDay = Math.floor(hourOfDay / 4) * 4\<close>.\<close>

definition timeOfDay :: "int \<Rightarrow> int" where
  "timeOfDay hourOfDay = (hourOfDay div 4) * 4"

record navObj =
  nav_type :: string
  nav_url :: string
  nav_referrer :: string
  nav_visitStart :: int
  nav_classification :: string
  nav_attentionDuration :: int
  nav_laterShared :: bool
  nav_prevExposed :: bool
  nav_numUntrackedVisits :: "int option"

text \<open>
  The grouping key is \<^verbatim>\<open>JSON.stringify\<close> of an object with a fixed list of fields; the model
  keeps the object. Such keys begin with a brace, so the objects indexed by them
  enumerate in insertion order: they are association lists, read with \<open>map_of\<close> and
  written with \<open>AList.update\<close> (in place when the key is present, at the end otherwise).
\<close>

record visitIndex =
  vi_referrerDomain :: string
  vi_dayOfWeek :: int
  vi_timeOfDay :: int
  vi_pageCategory :: string

record visitCounts =
  numVisits :: int
  totalAttention :: int
  laterSharedCount :: int
  prevExposedCount :: int

record domainObj =
  visitsByReferrer :: "(visitIndex \<times> visitCounts) list"

record navStats =
  trackedVisitsByDomain :: "(string \<times> domainObj) list"
  numUntrackedVisits :: "int option"

definition navSetup :: "unit \<Rightarrow> navStats" where
  "navSetup u = \<lparr>trackedVisitsByDomain = [], numUntrackedVisits = None\<rparr>"

definition navIndex :: "host \<Rightarrow> navObj \<Rightarrow> visitIndex" where
  "navIndex h navObj =
     (let dayOfWeek = dateGetDay h (nav_visitStart navObj);
          hourOfDay = dateGetHours h (nav_visitStart navObj)
      in \<lparr>vi_referrerDomain = getDomain h (nav_referrer navObj),
          vi_dayOfWeek = dayOfWeek,
          vi_timeOfDay = timeOfDay hourOfDay,
          vi_pageCategory = nav_classification navObj\<rparr>)"

text \<open>
  The second branch of the source tests \<^verbatim>\<open>navObj.type = "untrackedVisitCount"\<close>, an
  assignment whose value is a non-empty string: it is taken by every record that is not a
  page visit.
\<close>

definition navCompute :: "host \<Rightarrow> string \<times> navObj \<Rightarrow> navStats \<Rightarrow> navStats" where
  "navCompute h entry stats =
     (let navObj = snd entry in
      if nav_type navObj = ''pageVisit'' then
        (let domain = getDomain h (nav_url navObj);
             domainObj = (case map_of (trackedVisitsByDomain stats) domain of
                            None \<Rightarrow> \<lparr>visitsByReferrer = []\<rparr>
                          | Some d \<Rightarrow> d);
             index = navIndex h navObj;
             specificObj =
               (case map_of (visitsByReferrer domainObj) index of
                  Some s \<Rightarrow>
                    \<lparr>numVisits = numVisits s + 1,
                     totalAttention = totalAttention s + nav_attentionDuration navObj,
                     laterSharedCount = laterSharedCount s + (if nav_laterShared navObj then 1 else 0),
                     prevExposedCount = prevExposedCount s + (if nav_prevExposed navObj then 1 else 0)\<rparr>
                | None \<Rightarrow>
                    \<lparr>numVisits = 1,
                     totalAttention = nav_attentionDuration navObj,
                     laterSharedCount = (if nav_laterShared navObj then 1 else 0),
                     prevExposedCount = (if nav_prevExposed navObj then 1 else 0)\<rparr>)
         in stats\<lparr>trackedVisitsByDomain :=
              AList.update domain
                (domainObj\<lparr>visitsByReferrer :=
                   AList.update index specificObj (visitsByReferrer domainObj)\<rparr>)
                (trackedVisitsByDomain stats)\<rparr>)
      else stats\<lparr>numUntrackedVisits := nav_numUntrackedVisits navObj\<rparr>)"

text \<open>
  \<^verbatim>\<open>gather\<close> turns both keyed objects into arrays. An array element is the parsed key merged
  with the counts (here the pair of both). The domain objects never get a
  \<^verbatim>\<open>numUntrackedVisits\<close> property, so that field of a domain entry is undefined (\<open>None\<close>).
\<close>

record domainEntry =
  de_domain :: string
  de_numUntrackedVisits :: "int option"
  de_trackedVisitsByReferrer :: "(visitIndex \<times> visitCounts) list"

record navResult =
  res_trackedVisitsByDomain :: "domainEntry list"
  res_numUntrackedVisits :: "int option"

definition navGather :: "navStats \<Rightarrow> navResult" where
  "navGather r =
     \<lparr>res_trackedVisitsByDomain =
        map (\<lambda>pair. \<lparr>de_domain = fst pair,
                     de_numUntrackedVisits = None,
                     de_trackedVisitsByReferrer = visitsByReferrer (snd pair)\<rparr>)
            (trackedVisitsByDomain r),
      res_numUntrackedVisits = numUntrackedVisits r\<rparr>"

definition pageNavigationStats :: "host \<Rightarrow> (string \<times> navObj) list \<Rightarrow> navResult" where
  "pageNavigationStats h pageNavigationStorage =
     computeStats navSetup (navCompute h) navGather pageNavigationStorage"

subsection \<open>Link exposure\<close>











subsection \<open>Default-valued objects\<close>



subsection \<open>Social media account exposure\<close>







subsection \<open>Social media news exposure\<close>





subsection \<open>Social media link sharing\<close>

datatype jsError = TypeError | SyntaxError



















subsection \<open>A host for the examples\<close>

text \<open>
  A runtime whose clock is UTC (the epoch was a Thursday) and whose URL parser is given
  on the addresses the examples use; every other string counts as malformed there.
\<close>

definition exampleHostname :: "string \<Rightarrow> string option" where
  "exampleHostname u =
     (if u = ''https://news.example.com/story'' then Some ''news.example.com''
      else if u = ''https://www.example.org/'' then Some ''www.example.org''
      else if u = ''https://t.co/abc'' then Some ''t.co''
      else None)"

definition exampleHost :: host where
  "exampleHost =
     \<lparr>urlHostname = exampleHostname,
      dateGetDay = (\<lambda>t. (t div 86400000 + 4) mod 7),
      dateGetHours = (\<lambda>t. (t div 3600000) mod 24)\<rparr>"

section \<open>Reading the accumulators\<close>



















section \<open>Activity event pipeline (SocialMediaActivity)\<close>

subsection \<open>JavaScript values\<close>

text \<open>
  Requests, verification results and extracted events are JavaScript values. An object
  is the list of its own properties in enumeration order; numbers are integers. The
  operations below are the ones the verifiers and extractors use; a property read on
  undefined or null, and a method call on a value without that method, throw a TypeError.
  Properties inherited from the prototypes are not modelled.
\<close>

datatype jsval =
    JUndefined
  | JNull
  | JBool bool
  | JNum int
  | JStr string
  | JArr "jsval list"
  | JObj "(string \<times> jsval) list"

datatype 'a outcome = Returned 'a | Thrown jsError | Pending

text \<open>Truthiness, as tested by \<^verbatim>\<open>if (x)\<close> and \<^verbatim>\<open>!x\<close>.\<close>

fun truthy :: "jsval \<Rightarrow> bool" where
  "truthy JUndefined = False"
| "truthy JNull = False"
| "truthy (JBool b) = b"
| "truthy (JNum n) = (n \<noteq> 0)"
| "truthy (JStr s) = (s \<noteq> [])"
| "truthy (JArr xs) = True"
| "truthy (JObj fs) = True"

text \<open>\<^verbatim>\<open>o.p\<close> for a named property \<open>p\<close>, and \<^verbatim>\<open>o[i]\<close> for an index.\<close>

fun getProp :: "jsval \<Rightarrow> string \<Rightarrow> jsError + jsval" where
  "getProp JUndefined p = Inl TypeError"
| "getProp JNull p = Inl TypeError"
| "getProp (JObj fs) p = Inr (case map_of fs p of Some v \<Rightarrow> v | None \<Rightarrow> JUndefined)"
| "getProp (JArr xs) p = Inr (if p = ''length'' then JNum (int (length xs)) else JUndefined)"
| "getProp (JStr s) p = Inr (if p = ''length'' then JNum (int (length s)) else JUndefined)"
| "getProp (JBool b) p = Inr JUndefined"
| "getProp (JNum n) p = Inr JUndefined"

fun getIndex :: "jsval \<Rightarrow> nat \<Rightarrow> jsError + jsval" where
  "getIndex JUndefined i = Inl TypeError"
| "getIndex JNull i = Inl TypeError"
| "getIndex (JArr xs) i = Inr (if i < length xs then xs ! i else JUndefined)"
| "getIndex (JStr s) i = Inr (if i < length s then JStr [s ! i] else JUndefined)"
| "getIndex (JObj fs) i = Inr JUndefined"
| "getIndex (JBool b) i = Inr JUndefined"
| "getIndex (JNum n) i = Inr JUndefined"

text \<open>Sequencing of computations that may throw.\<close>

definition andThen :: "jsError + 'a \<Rightarrow> ('a \<Rightarrow> jsError + 'b) \<Rightarrow> jsError + 'b" where
  "andThen m f = (case m of Inl e \<Rightarrow> Inl e | Inr x \<Rightarrow> f x)"

text \<open>\<^verbatim>\<open>o.p.q\<close> and \<^verbatim>\<open>o.p.q.r\<close>.\<close>

definition getPath :: "jsval \<Rightarrow> string list \<Rightarrow> jsError + jsval" where
  "getPath v ps = fold (\<lambda>p m. andThen m (\<lambda>x. getProp x p)) ps (Inr v)"

text \<open>Decimal digits of a number, for \<^verbatim>\<open>String(n)\<close> and array indices as property names.\<close>

fun showNat :: "nat \<Rightarrow> string" where
  "showNat n =
     (if n < 10 then [''0123456789'' ! n] else showNat (n div 10) @ [''0123456789'' ! (n mod 10)])"

definition showInt :: "int \<Rightarrow> string" where
  "showInt n = (if n < 0 then CHR ''-'' # showNat (nat (- n)) else showNat (nat n))"

text \<open>
  \<^verbatim>\<open>String(v)\<close>, the conversion \<^verbatim>\<open>JSON.parse\<close> applies to its argument: an array is the
  comma-separated list of its elements, with null and undefined elements empty.
\<close>

fun toStringJS :: "jsval \<Rightarrow> string"
  and joinJS :: "jsval list \<Rightarrow> string" where
  "toStringJS JUndefined = ''undefined''"
| "toStringJS JNull = ''null''"
| "toStringJS (JBool b) = (if b then ''true'' else ''false'')"
| "toStringJS (JNum n) = showInt n"
| "toStringJS (JStr s) = s"
| "toStringJS (JArr xs) = joinJS xs"
| "toStringJS (JObj fs) = ''[object Object]''"
| "joinJS [] = []"
| "joinJS (x # xs) =
     (if x = JUndefined \<or> x = JNull then [] else toStringJS x)
     @ (if xs = [] then [] else CHR '','' # joinJS xs)"

text \<open>\<^verbatim>\<open>typeof(v) == "object"\<close>.\<close>

fun typeofObject :: "jsval \<Rightarrow> bool" where
  "typeofObject (JObj fs) = True"
| "typeofObject (JArr xs) = True"
| "typeofObject JNull = True"
| "typeofObject _ = False"

text \<open>
  The own properties of an object or array in enumeration order (\<^verbatim>\<open>for (k in o)\<close>); an
  array also has \<^verbatim>\<open>length\<close>, which \<^verbatim>\<open>in\<close> finds and the loop skips.
\<close>

fun ownProps :: "jsval \<Rightarrow> (string \<times> jsval) list" where
  "ownProps (JObj fs) = fs"
| "ownProps (JArr xs) = zip (map showNat [0..<length xs]) xs"
| "ownProps _ = []"

definition hasProp :: "string \<Rightarrow> jsval \<Rightarrow> bool" where
  "hasProp p v =
     (p \<in> fst ` set (ownProps v) \<or> (case v of JArr xs \<Rightarrow> p = ''length'' | _ \<Rightarrow> False))"

text \<open>\<^verbatim>\<open>o[p]\<close> for a property name that may be an array index.\<close>

definition getMember :: "jsval \<Rightarrow> string \<Rightarrow> jsval" where
  "getMember v p =
     (case map_of (ownProps v) p of
        Some x \<Rightarrow> x
      | None \<Rightarrow> (case getProp v p of Inr x \<Rightarrow> x | Inl e \<Rightarrow> JUndefined))"

text \<open>Is \<open>t\<close> a substring of \<open>s\<close>; \<^verbatim>\<open>s.includes(t)\<close>, \<^verbatim>\<open>s.startsWith(t)\<close>, \<^verbatim>\<open>s.endsWith(t)\<close>.\<close>

fun substringOf :: "string \<Rightarrow> string \<Rightarrow> bool" where
  "substringOf t [] = (t = [])"
| "substringOf t (c # cs) = (take (length t) (c # cs) = t \<or> substringOf t cs)"

text \<open>
  \<^verbatim>\<open>v.includes(t)\<close> for a string \<open>t\<close>: a substring test on a string, a membership test (by
  strict equality) on an array, and a TypeError on a value without the method.
\<close>

fun includesJS :: "jsval \<Rightarrow> string \<Rightarrow> jsError + bool" where
  "includesJS (JStr s) t = Inr (substringOf t s)"
| "includesJS (JArr xs) t = Inr (JStr t \<in> set xs)"
| "includesJS _ t = Inl TypeError"

fun startsWithJS :: "jsval \<Rightarrow> string \<Rightarrow> jsError + bool" where
  "startsWithJS (JStr s) t = Inr (take (length t) s = t)"
| "startsWithJS _ t = Inl TypeError"

fun endsWithJS :: "jsval \<Rightarrow> string \<Rightarrow> jsError + bool" where
  "endsWithJS (JStr s) t = Inr (length t \<le> length s \<and> drop (length s - length t) s = t)"
| "endsWithJS _ t = Inl TypeError"

text \<open>
  The services of the runtime the pipeline uses: \<^verbatim>\<open>JSON.parse\<close> on a string (\<open>None\<close> when it
  throws a SyntaxError), the conversion of a string to a number (\<open>None\<close> for NaN), the
  answer of Reddit to \<^verbatim>\<open>getRedditThingContents\<close> (\<open>None\<close> when the promise never resolves),
  the query parameters \<^verbatim>\<open>new URL(u).searchParams\<close> (\<open>None\<close> when the constructor throws), and
  the answer of the Facebook tab to \<^verbatim>\<open>getReshareInfo\<close> (\<open>None\<close> when it never comes).
\<close>

record runtime =
  jsonParse :: "string \<Rightarrow> jsval option"
  stringToNumber :: "string \<Rightarrow> int option"
  redditThing :: "string \<Rightarrow> jsval option"
  urlSearchParams :: "string \<Rightarrow> (string \<times> string) list option"
  reshareInfo :: "jsval option"

text \<open>\<^verbatim>\<open>Number(v)\<close>, with \<open>None\<close> for NaN.\<close>

fun toNumber :: "runtime \<Rightarrow> jsval \<Rightarrow> int option" where
  "toNumber rt JUndefined = None"
| "toNumber rt JNull = Some 0"
| "toNumber rt (JBool b) = Some (if b then 1 else 0)"
| "toNumber rt (JNum n) = Some n"
| "toNumber rt (JStr s) = stringToNumber rt s"
| "toNumber rt (JArr xs) = stringToNumber rt (toStringJS (JArr xs))"
| "toNumber rt (JObj fs) = stringToNumber rt (toStringJS (JObj fs))"

text \<open>\<^verbatim>\<open>v > n\<close> and \<^verbatim>\<open>v == n\<close> for a number \<open>n\<close>.\<close>

definition greaterThan :: "runtime \<Rightarrow> jsval \<Rightarrow> int \<Rightarrow> bool" where
  "greaterThan rt v n = (case toNumber rt v of None \<Rightarrow> False | Some m \<Rightarrow> m > n)"

definition looseEqNum :: "runtime \<Rightarrow> jsval \<Rightarrow> int \<Rightarrow> bool" where
  "looseEqNum rt v n =
     (case v of
        JUndefined \<Rightarrow> False
      | JNull \<Rightarrow> False
      | _ \<Rightarrow> toNumber rt v = Some n)"

text \<open>\<^verbatim>\<open>v == t\<close> for a string \<open>t\<close>.\<close>

definition looseEqStr :: "runtime \<Rightarrow> jsval \<Rightarrow> string \<Rightarrow> bool" where
  "looseEqStr rt v t =
     (case v of
        JUndefined \<Rightarrow> False
      | JNull \<Rightarrow> False
      | JStr s \<Rightarrow> s = t
      | JNum n \<Rightarrow> stringToNumber rt t = Some n
      | JBool b \<Rightarrow> stringToNumber rt t = Some (if b then 1 else 0)
      | JArr xs \<Rightarrow> toStringJS v = t
      | JObj fs \<Rightarrow> toStringJS v = t)"

fun isArray :: "jsval \<Rightarrow> bool" where
  "isArray (JArr xs) = True"
| "isArray _ = False"

subsection \<open>findFieldFacebook\<close>

text \<open>
  The loop over the children returns the first result that is neither null nor undefined.
\<close>

fun firstNonNull :: "jsval list \<Rightarrow> jsval" where
  "firstNonNull [] = JNull"
| "firstNonNull (result # rest) =
     (if result \<noteq> JNull \<and> result \<noteq> JUndefined then result else firstNonNull rest)"

text \<open>
  \<^verbatim>\<open>findFieldFacebook(object, fieldName, enterArray = true, recurseLevel = 5)\<close>. In the branch
  of the direct access the source assigns \<^verbatim>\<open>object[fieldName][0]\<close> to \<^verbatim>\<open>result\<close> when the
  property is an array and \<^verbatim>\<open>enterArray\<close> is set, and then assigns \<^verbatim>\<open>object[fieldName]\<close> to
  \<^verbatim>\<open>result\<close> unconditionally; \<open>result1\<close> is the first assignment, \<open>result\<close> the second. The
  function catches the exceptions of \<^verbatim>\<open>JSON.parse\<close> and throws none itself.
\<close>

fun findFieldFacebook :: "runtime \<Rightarrow> jsval \<Rightarrow> string \<Rightarrow> bool \<Rightarrow> nat \<Rightarrow> jsval" where
  "findFieldFacebook rt object fieldName enterArray 0 = JNull"
| "findFieldFacebook rt object fieldName enterArray (Suc recurseLevel) =
     (if object = JNull \<or> object = JUndefined then JNull
      else if typeofObject object \<and> hasProp fieldName object then
        (let result0 = JNull;
             result1 = (if enterArray \<and> isArray (getMember object fieldName)
                        then (case getIndex (getMember object fieldName) 0 of
                                Inr x \<Rightarrow> x | Inl e \<Rightarrow> JUndefined)
                        else result0);
             result = getMember object fieldName
         in case jsonParse rt (toStringJS result) of
              Some parsed \<Rightarrow> parsed
            | None \<Rightarrow> result)
      else
        (case jsonParse rt (toStringJS object) of
           Some parsed \<Rightarrow> findFieldFacebook rt parsed fieldName enterArray recurseLevel
         | None \<Rightarrow>
             if typeofObject object then
               firstNonNull
                 (map (\<lambda>subObject.
                         findFieldFacebook rt (snd subObject) fieldName enterArray recurseLevel)
                      (ownProps object))
             else JNull))"

subsection \<open>The pipeline\<close>

text \<open>
  The module state the pipeline touches: the processed request ids (an object used as a
  set, indexed by the request id as a property name) and the Facebook tab id.
\<close>

record pstate =
  processedRequestIds :: "string set"
  facebookTabId :: jsval

text \<open>The argument objects handed to verifiers, extractors and completers.\<close>

record vargs =
  va_requestDetails :: jsval
  va_platform :: string
  va_eventType :: string
  va_blockingType :: string
  va_eventTime :: int

record eargs =
  ea_requestDetails :: jsval
  ea_details :: jsval
  ea_verified :: jsval
  ea_platform :: string
  ea_eventType :: string
  ea_blockingType :: string
  ea_eventTime :: int

record cargs =
  ca_requestDetails :: jsval
  ca_verified :: jsval
  ca_details :: jsval
  ca_platform :: string
  ca_eventType :: string
  ca_blockingType :: string

type_synonym verifier = "vargs \<Rightarrow> pstate \<Rightarrow> jsval outcome \<times> pstate"
type_synonym extractor = "eargs \<Rightarrow> jsval outcome"
type_synonym completer = "cargs \<Rightarrow> jsError option"

record handler =
  stage :: string
  urls :: "string list"
  verifiers :: "verifier list"
  extractors :: "extractor list"
  completers :: "completer list"

text \<open>
  \<^verbatim>\<open>clientCallbacks[platform][eventType]\<close>: the blocking callbacks return a decision (awaited),
  the nonblocking ones are called for their effect and may throw (\<open>Some e\<close>).
\<close>

record callbacks =
  blocking :: "(jsval \<Rightarrow> jsval outcome) list"
  nonblocking :: "(jsval \<Rightarrow> jsError option) list"

text \<open>What a run of the pipeline calls, in order of the calls.\<close>

datatype call =
    VerifierCall nat vargs
  | ExtractorCall nat eargs
  | BlockingCall jsval
  | NonblockingCall nat jsval
  | CompleterCall nat cargs

text \<open>A loop either goes on with a value or ends the pipeline with its result.\<close>

datatype 'a progress = Continue 'a | Stop "jsval outcome"

text \<open>
  The loop over \<^verbatim>\<open>handler.verifiers\<close>: each verifier gets the same argument object, its result
  replaces \<^verbatim>\<open>verified\<close>, and a falsy result ends the pipeline with an empty object.
\<close>

fun runVerifiers ::
  "verifier list \<Rightarrow> nat \<Rightarrow> vargs \<Rightarrow> jsval \<Rightarrow> pstate \<Rightarrow> call list
     \<Rightarrow> jsval progress \<times> pstate \<times> call list" where
  "runVerifiers [] i a verified s tr = (Continue verified, s, tr)"
| "runVerifiers (verifier # rest) i a verified s tr =
     (case verifier a s of
        (Returned v, s') \<Rightarrow>
          if \<not> truthy v then (Stop (Returned (JObj [])), s', tr @ [VerifierCall i a])
          else runVerifiers rest (Suc i) a v s' (tr @ [VerifierCall i a])
      | (Thrown e, s') \<Rightarrow> (Stop (Thrown e), s', tr @ [VerifierCall i a])
      | (Pending, s') \<Rightarrow> (Stop Pending, s', tr @ [VerifierCall i a]))"

text \<open>
  The loop over \<^verbatim>\<open>handler.extractors\<close>: each extractor gets the details of the previous one
  and the result of the last verifier.
\<close>

fun runExtractors ::
  "extractor list \<Rightarrow> nat \<Rightarrow> vargs \<Rightarrow> jsval \<Rightarrow> jsval \<Rightarrow> call list
     \<Rightarrow> jsval progress \<times> call list" where
  "runExtractors [] i a verified details tr = (Continue details, tr)"
| "runExtractors (extractor # rest) i a verified details tr =
     (let ea = \<lparr>ea_requestDetails = va_requestDetails a, ea_details = details,
                ea_verified = verified, ea_platform = va_platform a,
                ea_eventType = va_eventType a, ea_blockingType = va_blockingType a,
                ea_eventTime = va_eventTime a\<rparr>
      in case extractor ea of
           Returned d \<Rightarrow>
             if \<not> truthy d then (Stop (Returned (JObj [])), tr @ [ExtractorCall i ea])
             else runExtractors rest (Suc i) a verified d (tr @ [ExtractorCall i ea])
         | Thrown e \<Rightarrow> (Stop (Thrown e), tr @ [ExtractorCall i ea])
         | Pending \<Rightarrow> (Stop Pending, tr @ [ExtractorCall i ea]))"

text \<open>The loops over the nonblocking listeners and the completers; a throw ends them.\<close>

fun runListeners ::
  "(jsval \<Rightarrow> jsError option) list \<Rightarrow> nat \<Rightarrow> jsval \<Rightarrow> call list \<Rightarrow> jsError option \<times> call list" where
  "runListeners [] i details tr = (None, tr)"
| "runListeners (userListener # rest) i details tr =
     (case userListener details of
        Some e \<Rightarrow> (Some e, tr @ [NonblockingCall i details])
      | None \<Rightarrow> runListeners rest (Suc i) details (tr @ [NonblockingCall i details]))"

fun runCompleters ::
  "completer list \<Rightarrow> nat \<Rightarrow> cargs \<Rightarrow> call list \<Rightarrow> jsError option \<times> call list" where
  "runCompleters [] i ca tr = (None, tr)"
| "runCompleters (completer # rest) i ca tr =
     (case completer ca of
        Some e \<Rightarrow> (Some e, tr @ [CompleterCall i ca])
      | None \<Rightarrow> runCompleters rest (Suc i) ca (tr @ [CompleterCall i ca]))"

text \<open>\<^verbatim>\<open>blockingResult && "cancel" in blockingResult\<close>; \<^verbatim>\<open>in\<close> throws on a primitive.\<close>

definition cancels :: "jsval \<Rightarrow> jsError + bool" where
  "cancels blockingResult =
     (if \<not> truthy blockingResult then Inr False
      else if typeofObject blockingResult then Inr (hasProp ''cancel'' blockingResult)
      else Inl TypeError)"

text \<open>The part of the pipeline after the blocking listener.\<close>

definition deliver ::
  "handler \<Rightarrow> callbacks \<Rightarrow> vargs \<Rightarrow> jsval \<Rightarrow> jsval \<Rightarrow> call list
     \<Rightarrow> jsval outcome \<times> call list" where
  "deliver handler cb a verified details tr =
     (case runListeners (nonblocking cb) 0 details tr of
        (Some e, tr1) \<Rightarrow> (Thrown e, tr1)
      | (None, tr1) \<Rightarrow>
          (case runCompleters (completers handler) 0
                  \<lparr>ca_requestDetails = va_requestDetails a, ca_verified = verified,
                   ca_details = details, ca_platform = va_platform a,
                   ca_eventType = va_eventType a, ca_blockingType = va_blockingType a\<rparr> tr1 of
             (Some e, tr2) \<Rightarrow> (Thrown e, tr2)
           | (None, tr2) \<Rightarrow> (Returned JUndefined, tr2)))"

text \<open>
  The part of the pipeline from the blocking listener on: in blocking mode the first
  blocking callback is awaited, and a decision with a \<^verbatim>\<open>cancel\<close> property is returned at once.
\<close>

definition notify ::
  "handler \<Rightarrow> callbacks \<Rightarrow> vargs \<Rightarrow> jsval \<Rightarrow> jsval \<Rightarrow> call list
     \<Rightarrow> jsval outcome \<times> call list" where
  "notify handler cb a verified details tr =
     (if va_blockingType a = ''blocking'' then
        (case blocking cb of
           [] \<Rightarrow> (Thrown TypeError, tr)
         | callback # others \<Rightarrow>
             (case callback details of
                Thrown e \<Rightarrow> (Thrown e, tr @ [BlockingCall details])
              | Pending \<Rightarrow> (Pending, tr @ [BlockingCall details])
              | Returned blockingResult \<Rightarrow>
                  (case cancels blockingResult of
                     Inl e \<Rightarrow> (Thrown e, tr @ [BlockingCall details])
                   | Inr True \<Rightarrow> (Returned blockingResult, tr @ [BlockingCall details])
                   | Inr False \<Rightarrow>
                       deliver handler cb a verified details (tr @ [BlockingCall details]))))
      else deliver handler cb a verified details tr)"

text \<open>\<^verbatim>\<open>if (platform == "facebook") { facebookTabId = requestDetails.tabId; }\<close>\<close>

definition recordTab :: "string \<Rightarrow> jsval \<Rightarrow> pstate \<Rightarrow> jsError + pstate" where
  "recordTab platform requestDetails s =
     (if platform = ''facebook''
      then (case getProp requestDetails ''tabId'' of
              Inl e \<Rightarrow> Inl e
            | Inr t \<Rightarrow> Inr (s\<lparr>facebookTabId := t\<rparr>))
      else Inr s)"

text \<open>
  \<^verbatim>\<open>handleGenericEvent\<close>, for the handler \<^verbatim>\<open>platformHandlers[platform][eventType]\<close> and the
  callbacks \<^verbatim>\<open>clientCallbacks[platform][eventType]\<close>; \<open>eventTime\<close> is the reading of
  \<^verbatim>\<open>Date.now()\<close>. The result is the value the function returns, the state after the run and
  the calls made. A function that ends without \<^verbatim>\<open>return\<close> returns undefined.
\<close>

definition handleGenericEvent ::
  "handler \<Rightarrow> callbacks \<Rightarrow> int \<Rightarrow> jsval \<Rightarrow> string \<Rightarrow> string \<Rightarrow> string \<Rightarrow> pstate
     \<Rightarrow> jsval outcome \<times> pstate \<times> call list" where
  "handleGenericEvent handler cb eventTime requestDetails platform eventType blockingType s =
     (let a = \<lparr>va_requestDetails = requestDetails, va_platform = platform,
               va_eventType = eventType, va_blockingType = blockingType,
               va_eventTime = eventTime\<rparr>
      in case runVerifiers (verifiers handler) 0 a JNull s [] of
           (Stop r, s1, tr1) \<Rightarrow> (r, s1, tr1)
         | (Continue verified, s1, tr1) \<Rightarrow>
             (case recordTab platform requestDetails s1 of
                Inl e \<Rightarrow> (Thrown e, s1, tr1)
              | Inr s2 \<Rightarrow>
                  (case runExtractors (extractors handler) 0 a verified (JObj []) tr1 of
                     (Stop r, tr2) \<Rightarrow> (r, s2, tr2)
                   | (Continue details, tr2) \<Rightarrow>
                       (case notify handler cb a verified details tr2 of
                          (r, tr3) \<Rightarrow> (r, s2, tr3)))))"

subsection \<open>Verifiers and extractors\<close>

definition pureVerifier :: "(vargs \<Rightarrow> jsError + jsval) \<Rightarrow> verifier" where
  "pureVerifier f a s = (case f a of Inl e \<Rightarrow> (Thrown e, s) | Inr v \<Rightarrow> (Returned v, s))"

definition settled :: "jsError + jsval \<Rightarrow> jsval outcome" where
  "settled m = (case m of Inl e \<Rightarrow> Thrown e | Inr v \<Rightarrow> Returned v)"

text \<open>\<^verbatim>\<open>requestDetails.requestBody.formData\<close>.\<close>

definition formDataOf :: "jsval \<Rightarrow> jsError + jsval" where
  "formDataOf requestDetails = getPath requestDetails [''requestBody'', ''formData'']"

text \<open>
  \<^verbatim>\<open>verifyPostReq\<close>. The source tests \<^verbatim>\<open>!requestDetails.method == "POST"\<close>, the comparison of
  the negated method, a boolean, with a string.
\<close>

definition verifyPostReq :: "runtime \<Rightarrow> verifier" where
  "verifyPostReq rt =
     pureVerifier (\<lambda>a.
       let requestDetails = va_requestDetails a in
       if \<not> truthy requestDetails then Inr JNull
       else andThen (getProp requestDetails ''method'') (\<lambda>method.
         if looseEqStr rt (JBool (\<not> truthy method)) ''POST'' then Inr JNull
         else Inr (JObj [])))"

definition verifyReadableFormData :: verifier where
  "verifyReadableFormData =
     pureVerifier (\<lambda>a.
       andThen (getProp (va_requestDetails a) ''requestBody'') (\<lambda>requestBody.
         if \<not> truthy requestBody then Inr JNull
         else andThen (getProp requestBody ''formData'') (\<lambda>formData.
           if \<not> truthy formData then Inr JNull else Inr (JObj []))))"

definition verifyNewRequest :: verifier where
  "verifyNewRequest a s =
     (case getProp (va_requestDetails a) ''requestId'' of
        Inl e \<Rightarrow> (Thrown e, s)
      | Inr requestId \<Rightarrow>
          if \<not> truthy requestId then (Returned JNull, s)
          else if toStringJS requestId \<in> processedRequestIds s then (Returned JNull, s)
          else (Returned (JObj []),
                s\<lparr>processedRequestIds := insert (toStringJS requestId) (processedRequestIds s)\<rparr>))"

text \<open>
  \<^verbatim>\<open>verifyRedditPostVote\<close> and \<^verbatim>\<open>verifyRedditCommentVote\<close> differ in the prefix of the id only:
  \<^verbatim>\<open>id && id.length > 0 && dir && dir.length > 0 && id[0].startsWith(prefix)\<close> on the form
  data.
\<close>

definition redditVoteCheck :: "runtime \<Rightarrow> string \<Rightarrow> vargs \<Rightarrow> jsError + jsval" where
  "redditVoteCheck rt prefix a =
     andThen (formDataOf (va_requestDetails a)) (\<lambda>formData.
     andThen (getProp formData ''id'') (\<lambda>id.
       if \<not> truthy id then Inr JNull else
     andThen (getProp id ''length'') (\<lambda>idLength.
       if \<not> greaterThan rt idLength 0 then Inr JNull else
     andThen (getProp formData ''dir'') (\<lambda>dir.
       if \<not> truthy dir then Inr JNull else
     andThen (getProp dir ''length'') (\<lambda>dirLength.
       if \<not> greaterThan rt dirLength 0 then Inr JNull else
     andThen (getIndex id 0) (\<lambda>first.
     andThen (startsWithJS first prefix) (\<lambda>starts.
       if \<not> starts then Inr JNull else Inr (JObj []))))))))"

definition verifyRedditPostVote :: "runtime \<Rightarrow> verifier" where
  "verifyRedditPostVote rt = pureVerifier (redditVoteCheck rt ''t3_'')"

definition verifyRedditCommentVote :: "runtime \<Rightarrow> verifier" where
  "verifyRedditCommentVote rt = pureVerifier (redditVoteCheck rt ''t1_'')"

definition extractRedditPostVote :: extractor where
  "extractRedditPostVote ea =
     settled
       (andThen (formDataOf (ea_requestDetails ea)) (\<lambda>formData.
        andThen (getProp formData ''dir'') (\<lambda>dir.
        andThen (getIndex dir 0) (\<lambda>vote.
        andThen (getProp formData ''id'') (\<lambda>id.
        andThen (getIndex id 0) (\<lambda>postId.
          Inr (JObj [(''eventTime'', JNum (ea_eventTime ea)),
                     (''eventType'', JStr ''postVote''),
                     (''vote'', vote),
                     (''postId'', postId)])))))))"

text \<open>
  \<^verbatim>\<open>extractRedditCommentVote\<close> returns a promise that resolves in the callback of
  \<^verbatim>\<open>getRedditThingContents\<close>; when Reddit does not answer, or the callback throws on the
  answer, the promise never settles.
\<close>

definition extractRedditCommentVote :: "runtime \<Rightarrow> extractor" where
  "extractRedditCommentVote rt ea =
     (case andThen (formDataOf (ea_requestDetails ea)) (\<lambda>formData.
           andThen (getProp formData ''dir'') (\<lambda>dir.
           andThen (getIndex dir 0) (\<lambda>vote.
           andThen (getProp formData ''id'') (\<lambda>id.
           andThen (getIndex id 0) (\<lambda>commentId. Inr (vote, commentId)))))) of
        Inl e \<Rightarrow> Thrown e
      | Inr (vote, commentId) \<Rightarrow>
          (case redditThing rt (toStringJS commentId) of
             None \<Rightarrow> Pending
           | Some hydratedComment \<Rightarrow>
               (case andThen (getPath hydratedComment [''data'', ''children'']) (\<lambda>children.
                     andThen (getIndex children 0) (\<lambda>child.
                       getPath child [''data'', ''link_id''])) of
                  Inl e \<Rightarrow> Pending
                | Inr postId \<Rightarrow>
                    Returned (JObj [(''eventTime'', JNum (ea_eventTime ea)),
                                    (''eventType'', JStr ''commentVote''),
                                    (''vote'', vote),
                                    (''commentId'', commentId),
                                    (''postId'', postId),
                                    (''commentContents'', hydratedComment)]))))"

definition verifyFacebookReact :: "runtime \<Rightarrow> verifier" where
  "verifyFacebookReact rt =
     pureVerifier (\<lambda>a.
       let requestDetails = va_requestDetails a in
       andThen (formDataOf requestDetails) (\<lambda>formData.
       andThen (getProp formData ''fb_api_req_friendly_name'') (\<lambda>present.
         if \<not> truthy present then Inr JNull else
         (let friendlyName =
                findFieldFacebook rt requestDetails ''fb_api_req_friendly_name'' True 5
          in andThen (includesJS friendlyName ''UFI2FeedbackReactMutation'') (\<lambda>first.
             andThen (if first then Inr True
                      else includesJS friendlyName ''CometUFIFeedbackReactMutation'') (\<lambda>either.
               if \<not> either then Inr JNull else
               (let reactionRequest = findFieldFacebook rt formData ''variables'' True 5
                in Inr (JObj [(''reactionRequest'', reactionRequest)]))))))))"

text \<open>
  \<^verbatim>\<open>extractFacebookReact\<close>. The lookups of the \<^verbatim>\<open>try\<close> block throw nothing, so its \<^verbatim>\<open>catch\<close>
  block is never entered.
\<close>

definition reactionTypeOf :: "runtime \<Rightarrow> jsval \<Rightarrow> string" where
  "reactionTypeOf rt reaction =
     (if looseEqNum rt reaction 0 then ''remove''
      else if looseEqNum rt reaction 1 then ''like''
      else if looseEqNum rt reaction 2 then ''love''
      else if looseEqNum rt reaction 16 then ''care''
      else if looseEqNum rt reaction 4 then ''haha''
      else if looseEqNum rt reaction 3 then ''wow''
      else if looseEqNum rt reaction 7 then ''sad''
      else if looseEqNum rt reaction 8 then ''angry''
      else ''unknown'')"

definition extractFacebookReact :: "runtime \<Rightarrow> extractor" where
  "extractFacebookReact rt ea =
     settled
       (andThen (getProp (ea_verified ea) ''reactionRequest'') (\<lambda>reactionRequest.
          let tracking = findFieldFacebook rt reactionRequest ''tracking'' True 5;
              postId = findFieldFacebook rt tracking ''top_level_post_id'' True 5;
              groupId = findFieldFacebook rt tracking ''group_id'' True 5;
              ownerId = findFieldFacebook rt tracking ''content_owner_id_new'' True 5;
              reaction = findFieldFacebook rt reactionRequest ''feedback_reaction'' True 5;
              reactionType = reactionTypeOf rt reaction
          in Inr (JObj [(''eventType'', JStr ''react''),
                        (''eventTime'', JNum (ea_eventTime ea)),
                        (''postId'', postId),
                        (''groupId'', groupId),
                        (''ownerId'', ownerId),
                        (''reactionType'', JStr reactionType)])))"

definition isThisPostAReshare :: "runtime \<Rightarrow> jsval \<Rightarrow> jsError + bool" where
  "isThisPostAReshare rt requestDetails =
     andThen (formDataOf requestDetails) (\<lambda>formData.
       let friendlyName = findFieldFacebook rt formData ''fb_api_req_friendly_name'' True 5 in
       andThen (includesJS friendlyName ''ComposerStoryCreateMutation'') (\<lambda>isPost.
         if isPost then
           andThen (formDataOf requestDetails) (\<lambda>formData2.
             let composerType = findFieldFacebook rt formData2 ''composer_type'' True 5 in
             if looseEqStr rt composerType ''share'' then Inr True else Inr False)
         else Inr False))"

text \<open>
  \<^verbatim>\<open>verifyFacebookReshare\<close>: the branch of the new Facebook (\<^verbatim>\<open>api/graphql\<close>), then the old
  one, which reads the shared post from the form data or from the query of the URL.
\<close>

definition verifyFacebookReshare :: "runtime \<Rightarrow> verifier" where
  "verifyFacebookReshare rt =
     pureVerifier (\<lambda>a.
       let requestDetails = va_requestDetails a in
       andThen (getProp requestDetails ''url'') (\<lambda>url.
       andThen (includesJS url ''api/graphql'') (\<lambda>graphql.
         if graphql then
           andThen (formDataOf requestDetails) (\<lambda>formData.
           andThen (getProp formData ''fb_api_req_friendly_name'') (\<lambda>friendlyName.
             if \<not> truthy friendlyName then Inr JNull else
             andThen (includesJS friendlyName ''useCometFeedToFeedReshare_FeedToFeedMutation'')
               (\<lambda>feedToFeed.
                  if feedToFeed then Inr (JObj []) else
                  andThen (isThisPostAReshare rt requestDetails) (\<lambda>reshare.
                    if reshare then Inr (JObj []) else Inr JNull))))
         else
           andThen (formDataOf requestDetails) (\<lambda>formData.
           andThen (if truthy formData \<and> typeofObject formData
                       \<and> hasProp ''shared_from_post_id'' formData
                    then andThen (getPath formData [''shared_from_post_id'', ''length''])
                           (\<lambda>n. if greaterThan rt n 0 \<and> hasProp ''sharer_id'' formData
                                then andThen (getPath formData [''sharer_id'', ''length''])
                                       (\<lambda>m. Inr (greaterThan rt m 0))
                                else Inr False)
                    else Inr False) (\<lambda>inForm.
             if inForm then
               andThen (getProp formData ''shared_from_post_id'') (\<lambda>shared.
               andThen (getIndex shared 0) (\<lambda>sharedFromPostId.
               andThen (getProp formData ''sharer_id'') (\<lambda>sharer.
               andThen (getIndex sharer 0) (\<lambda>ownerId.
                 Inr (JObj [(''sharedFromPostId'', sharedFromPostId),
                            (''ownerId'', ownerId)])))))
             else
               (case urlSearchParams rt (toStringJS url) of
                  None \<Rightarrow> Inl TypeError
                | Some searchParams \<Rightarrow>
                    (let param = (\<lambda>name. case map_of searchParams name of
                                            Some v \<Rightarrow> JStr v | None \<Rightarrow> JNull);
                         sharedFromPostId = param ''shared_from_post_id'';
                         ownerId = param ''owner_id'';
                         newPostMessage = param ''message''
                     in if truthy sharedFromPostId \<or> truthy ownerId \<or> truthy newPostMessage
                        then Inr (JObj [(''sharedFromPostId'', sharedFromPostId),
                                        (''ownerId'', ownerId),
                                        (''newPostMessage'', newPostMessage)])
                        else Inr JNull)))))))"

definition lowerChar :: "char \<Rightarrow> char" where
  "lowerChar c =
     (let n = (of_char c :: nat) in if 65 \<le> n \<and> n \<le> 90 then char_of (n + 32) else c)"

definition toLowerCaseJS :: "jsval \<Rightarrow> jsError + string" where
  "toLowerCaseJS v = (case v of JStr s \<Rightarrow> Inr (map lowerChar s) | _ \<Rightarrow> Inl TypeError)"

definition checkFacebookPostAudience :: "runtime \<Rightarrow> jsval \<Rightarrow> jsError + string" where
  "checkFacebookPostAudience rt requestDetails =
     andThen (if \<not> truthy requestDetails then Inr False
              else andThen (getProp requestDetails ''requestBody'') (\<lambda>requestBody.
                if \<not> truthy requestBody then Inr False
                else andThen (getProp requestBody ''formData'') (\<lambda>formData.
                  andThen (getProp formData ''fb_api_req_friendly_name'') (\<lambda>present.
                    Inr (truthy present))))) (\<lambda>named.
       if \<not> named then Inr ''unknown'' else
       andThen (formDataOf requestDetails) (\<lambda>formData.
         let variables = findFieldFacebook rt formData ''variables'' True 5;
             friendlyName = findFieldFacebook rt formData ''fb_api_req_friendly_name'' True 5
         in andThen (includesJS friendlyName ''ComposerStoryCreateMutation'') (\<lambda>isPost.
            let base_state1 =
                  (if isPost then
                     findFieldFacebook rt
                       (findFieldFacebook rt
                          (findFieldFacebook rt variables ''audience'' True 5)
                          ''privacy'' True 5)
                       ''base_state'' True 5
                   else JStr ''unknown'')
            in andThen (includesJS friendlyName ''useCometFeedToFeedReshare_FeedToFeedMutation'')
                 (\<lambda>isReshare.
                    let base_state =
                          (if isReshare then
                             findFieldFacebook rt
                               (findFieldFacebook rt
                                  (findFieldFacebook rt variables ''audiences'' True 5)
                                  ''privacy'' True 5)
                               ''base_state'' True 5
                           else base_state1)
                    in andThen (toLowerCaseJS base_state) (\<lambda>lower.
                         if lower = ''friends'' \<or> lower = ''self'' then Inr ''restricted''
                         else if lower = ''everyone'' then Inr ''public''
                         else Inr ''unknown'')))))"

text \<open>
  \<^verbatim>\<open>extractFacebookReshare\<close> handles the new Facebook only; for any other URL the function
  ends without \<^verbatim>\<open>return\<close>, so its value is undefined.
\<close>

definition extractFacebookReshare :: "runtime \<Rightarrow> extractor" where
  "extractFacebookReshare rt ea =
     (let requestDetails = ea_requestDetails ea in
      case andThen (getProp requestDetails ''url'') (\<lambda>url. includesJS url ''api/graphql'') of
        Inl e \<Rightarrow> Thrown e
      | Inr False \<Rightarrow> Returned JUndefined
      | Inr True \<Rightarrow>
          (case andThen (formDataOf requestDetails) (\<lambda>formData.
                  let variables = findFieldFacebook rt formData ''variables'' True 5;
                      message = findFieldFacebook rt variables ''message'' True 5;
                      newPostMessage = (if truthy message
                                        then findFieldFacebook rt message ''text'' True 5
                                        else JStr []);
                      attachments = findFieldFacebook rt variables ''attachments'' True 5;
                      link = findFieldFacebook rt attachments ''link'' True 5;
                      canonical = findFieldFacebook rt link ''canonical'' True 5
                  in andThen (checkFacebookPostAudience rt requestDetails) (\<lambda>audience.
                       Inr (newPostMessage, canonical, audience))) of
             Inl e \<Rightarrow> Thrown e
           | Inr (newPostMessage, canonical, audience) \<Rightarrow>
               (case reshareInfo rt of
                  None \<Rightarrow> Pending
                | Some source \<Rightarrow>
                    Returned (JObj [(''newPostMessage'', newPostMessage),
                                    (''attachedUrls'', JArr [canonical]),
                                    (''audience'', JStr audience),
                                    (''source'', source),
                                    (''eventType'', JStr ''reshare''),
                                    (''eventTime'', JNum (ea_eventTime ea))]))))"

subsection \<open>Handlers\<close>

text \<open>The entries of \<^verbatim>\<open>platformHandlers\<close> for the Reddit votes and the Facebook react and reshare.\<close>

definition reddit_postVote :: "runtime \<Rightarrow> handler" where
  "reddit_postVote rt =
     \<lparr>stage = ''onBeforeRequest'',
      urls = [''https://oauth.reddit.com/api/vote*''],
      verifiers = [verifyPostReq rt, verifyReadableFormData, verifyNewRequest,
                   verifyRedditPostVote rt],
      extractors = [extractRedditPostVote],
      completers = []\<rparr>"

definition reddit_commentVote :: "runtime \<Rightarrow> handler" where
  "reddit_commentVote rt =
     \<lparr>stage = ''onBeforeRequest'',
      urls = [''https://oauth.reddit.com/api/vote*''],
      verifiers = [verifyPostReq rt, verifyReadableFormData, verifyNewRequest,
                   verifyRedditCommentVote rt],
      extractors = [extractRedditCommentVote rt],
      completers = []\<rparr>"

definition facebook_react :: "runtime \<Rightarrow> handler" where
  "facebook_react rt =
     \<lparr>stage = ''onBeforeRequest'',
      urls = [''https://www.facebook.com/api/graphql/''],
      verifiers = [verifyPostReq rt, verifyReadableFormData, verifyNewRequest,
                   verifyFacebookReact rt],
      extractors = [extractFacebookReact rt],
      completers = []\<rparr>"

definition facebook_reshare :: "runtime \<Rightarrow> handler" where
  "facebook_reshare rt =
     \<lparr>stage = ''onBeforeRequest'',
      urls = [''https://www.facebook.com/share/dialog/submit/*'',
              ''https://www.facebook.com/api/graphql/''],
      verifiers = [verifyPostReq rt, verifyReadableFormData, verifyFacebookReshare rt,
                   verifyNewRequest],
      extractors = [extractFacebookReshare rt],
      completers = []\<rparr>"

subsection \<open>Describing a run\<close>

text \<open>The step of the pipeline a call belongs to, and its position in the list of that step.\<close>

fun callKind :: "call \<Rightarrow> nat \<times> nat" where
  "callKind (VerifierCall i a) = (0, i)"
| "callKind (ExtractorCall i ea) = (1, i)"
| "callKind (BlockingCall d) = (2, 0)"
| "callKind (NonblockingCall i d) = (3, i)"
| "callKind (CompleterCall i ca) = (4, i)"

text \<open>The kinds of the calls of a run that made the given numbers of calls in each step.\<close>

definition callShape :: "nat \<Rightarrow> nat \<Rightarrow> nat \<Rightarrow> nat \<Rightarrow> nat \<Rightarrow> (nat \<times> nat) list" where
  "callShape nv ne nb nn nc =
     map (Pair 0) [0..<nv] @ map (Pair 1) [0..<ne] @ map (Pair 2) [0..<nb]
     @ map (Pair 3) [0..<nn] @ map (Pair 4) [0..<nc]"

text \<open>The numbers of calls a run can make: a step is begun only when the one before is complete.\<close>

definition stepCounts :: "handler \<Rightarrow> callbacks \<Rightarrow> string \<Rightarrow> nat \<Rightarrow> nat \<Rightarrow> nat \<Rightarrow> nat \<Rightarrow> nat \<Rightarrow> bool" where
  "stepCounts h cb blockingType nv ne nb nn nc =
     (nv \<le> length (verifiers h) \<and> ne \<le> length (extractors h) \<and> nb \<le> 1
      \<and> nn \<le> length (nonblocking cb) \<and> nc \<le> length (completers h)
      \<and> (0 < ne + nb + nn + nc \<longrightarrow> nv = length (verifiers h))
      \<and> (0 < nb + nn + nc \<longrightarrow> ne = length (extractors h))
      \<and> (0 < nn + nc \<longrightarrow> nb = (if blockingType = ''blocking'' then 1 else 0))
      \<and> (0 < nc \<longrightarrow> nn = length (nonblocking cb))
      \<and> (nb = 1 \<longrightarrow> blockingType = ''blocking''))"

text \<open>The argument object of the verifiers of a run.\<close>

definition requestArgs :: "int \<Rightarrow> jsval \<Rightarrow> string \<Rightarrow> string \<Rightarrow> string \<Rightarrow> vargs" where
  "requestArgs eventTime requestDetails platform eventType blockingType =
     \<lparr>va_requestDetails = requestDetails, va_platform = platform,
      va_eventType = eventType, va_blockingType = blockingType,
      va_eventTime = eventTime\<rparr>"

text \<open>The argument object of the extractor at details \<open>d\<close>.\<close>

definition extractorArgs :: "vargs \<Rightarrow> jsval \<Rightarrow> jsval \<Rightarrow> eargs" where
  "extractorArgs a verified d =
     \<lparr>ea_requestDetails = va_requestDetails a, ea_details = d,
      ea_verified = verified, ea_platform = va_platform a,
      ea_eventType = va_eventType a, ea_blockingType = va_blockingType a,
      ea_eventTime = va_eventTime a\<rparr>"

text \<open>A run delivers an event when it calls a listener, blocking or nonblocking.\<close>

definition delivered :: "call list \<Rightarrow> bool" where
  "delivered tr = list_ex (\<lambda>c. fst (callKind c) = 2 \<or> fst (callKind c) = 3) tr"

text \<open>
  The number of functions of a list that a loop without \<^verbatim>\<open>try\<close> calls on an argument: all of
  them up to and including the first that throws. \<open>allReturn\<close>: none of them throws.
\<close>

fun calledOf :: "('a \<Rightarrow> jsError option) list \<Rightarrow> 'a \<Rightarrow> nat" where
  "calledOf [] x = 0"
| "calledOf (f # fs) x = (case f x of Some e \<Rightarrow> 1 | None \<Rightarrow> Suc (calledOf fs x))"

definition allReturn :: "('a \<Rightarrow> jsError option) list \<Rightarrow> 'a \<Rightarrow> bool" where
  "allReturn fs x = list_all (\<lambda>f. f x = None) fs"

text \<open>The argument object of the completers of a run.\<close>

definition completerArgs :: "vargs \<Rightarrow> jsval \<Rightarrow> jsval \<Rightarrow> cargs" where
  "completerArgs a verified d =
     \<lparr>ca_requestDetails = va_requestDetails a, ca_verified = verified,
      ca_details = d, ca_platform = va_platform a,
      ca_eventType = va_eventType a, ca_blockingType = va_blockingType a\<rparr>"

section \<open>Example inputs\<close>

definition visitAtOne :: navObj where
  "visitAtOne =
     \<lparr>nav_type = ''pageVisit'', nav_url = ''https://news.example.com/story'',
      nav_referrer = ''https://t.co/abc'', nav_visitStart = 46800000,
      nav_classification = ''news'', nav_attentionDuration = 1500,
      nav_laterShared = False, nav_prevExposed = True, nav_numUntrackedVisits = None\<rparr>"











subsection \<open>A runtime and requests for the examples\<close>

fun digitsValue :: "string \<Rightarrow> nat \<Rightarrow> nat option" where
  "digitsValue [] acc = Some acc"
| "digitsValue (c # cs) acc =
     (if isDigit c then digitsValue cs (acc * 10 + (of_char c - 48)) else None)"

text \<open>
  A runtime for the examples. Its \<^verbatim>\<open>JSON.parse\<close> reads the decimal numerals and the one JSON
  text of the examples, \<open>reactVariables\<close>, and rejects the other strings that the examples
  hand to it, none of which is a JSON text; its conversion to numbers reads the empty
  string and the decimal numerals.
\<close>

definition reactVariables :: string where
  \<open>reactVariables = ''{"input":{"feedback_id":"ZmVlZGJhY2s6MQ","feedback_reaction":2}}''\<close>

definition exampleParse :: "string \<Rightarrow> jsval option" where
  "exampleParse s =
     (if s = reactVariables then
        Some (JObj [(''input'', JObj [(''feedback_id'', JStr ''ZmVlZGJhY2s6MQ''),
                                     (''feedback_reaction'', JNum 2)])])
      else if s = [] \<or> (hd s = CHR ''0'' \<and> length s > 1) then None
      else map_option (\<lambda>n. JNum (int n)) (digitsValue s 0))"

definition exampleNumber :: "string \<Rightarrow> int option" where
  "exampleNumber s = map_option int (digitsValue s 0)"

definition exampleRuntime :: runtime where
  "exampleRuntime =
     \<lparr>jsonParse = exampleParse,
      stringToNumber = exampleNumber,
      redditThing = (\<lambda>thingId.
        if thingId = ''t1_c0ffee'' then
          Some (JObj [(''data'', JObj [(''children'',
                  JArr [JObj [(''data'', JObj [(''link_id'', JStr ''t3_beef'')])]])])])
        else None),
      urlSearchParams = (\<lambda>u.
        if u = ''https://www.facebook.com/share/dialog/submit/?app_id=1'' then Some [(''app_id'', ''1'')]
        else None),
      reshareInfo = Some JUndefined\<rparr>"

definition commentVoteRequest :: jsval where
  "commentVoteRequest =
     JObj [(''requestId'', JStr ''4711''),
           (''url'', JStr ''https://oauth.reddit.com/api/vote?raw_json=1''),
           (''method'', JStr ''POST''),
           (''tabId'', JNum 3),
           (''requestBody'', JObj [(''formData'',
              JObj [(''id'', JArr [JStr ''t1_c0ffee'']), (''dir'', JArr [JStr ''1''])])])]"

definition reactRequest :: jsval where
  "reactRequest =
     JObj [(''requestId'', JStr ''1001''),
           (''url'', JStr ''https://www.facebook.com/api/graphql/''),
           (''method'', JStr ''POST''),
           (''tabId'', JNum 7),
           (''requestBody'', JObj [(''formData'',
              JObj [(''fb_api_req_friendly_name'', JArr [JStr ''UFI2FeedbackReactMutation'']),
                    (''variables'', JArr [JStr reactVariables])])])]"

definition reshareRequest :: jsval where
  "reshareRequest =
     JObj [(''requestId'', JStr ''2002''),
           (''url'', JStr ''https://www.facebook.com/share/dialog/submit/?app_id=1''),
           (''method'', JStr ''POST''),
           (''tabId'', JNum 7),
           (''requestBody'', JObj [(''formData'',
              JObj [(''shared_from_post_id'', JArr [JStr ''111'']),
                    (''sharer_id'', JArr [JStr ''222''])])])]"

definition startState :: pstate where
  "startState = \<lparr>processedRequestIds = {}, facebookTabId = JNum (- 1)\<rparr>"

definition oneListener :: callbacks where
  "oneListener = \<lparr>blocking = [], nonblocking = [\<lambda>details. None]\<rparr>"

definition postVoteRequest :: jsval where
  "postVoteRequest =
     JObj [(''requestId'', JStr ''4712''),
           (''url'', JStr ''https://oauth.reddit.com/api/vote?raw_json=1''),
           (''method'', JStr ''POST''),
           (''tabId'', JNum 3),
           (''requestBody'', JObj [(''formData'',
              JObj [(''id'', JArr [JStr ''t3_beef'']), (''dir'', JArr [JStr ''1''])])])]"

definition cancelDecision :: jsval where
  "cancelDecision = JObj [(''cancel'', JBool True)]"

definition cancelling :: callbacks where
  "cancelling = \<lparr>blocking = [\<lambda>details. Returned cancelDecision], nonblocking = [\<lambda>details. None]\<rparr>"

definition postVoteDetails :: jsval where
  "postVoteDetails =
     JObj [(''eventTime'', JNum 5), (''eventType'', JStr ''postVote''),
           (''vote'', JStr ''1''), (''postId'', JStr ''t3_beef'')]"

definition reactVerified :: jsval where
  "reactVerified =
     JObj [(''reactionRequest'',
            JObj [(''input'', JObj [(''feedback_id'', JStr ''ZmVlZGJhY2s6MQ''),
                                   (''feedback_reaction'', JNum 2)])])]"

definition reactDetails :: jsval where
  "reactDetails =
     JObj [(''eventType'', JStr ''react''), (''eventTime'', JNum 5), (''postId'', JNull),
           (''groupId'', JNull), (''ownerId'', JNull), (''reactionType'', JStr ''love'')]"

definition invalidVoteRequest :: jsval where
  "invalidVoteRequest =
     JObj [(''requestId'', JStr ''4713''),
           (''url'', JStr ''https://oauth.reddit.com/api/vote?raw_json=1''),
           (''method'', JStr ''POST''),
           (''tabId'', JNum 3),
           (''requestBody'', JObj [(''formData'', JObj [(''id'', JArr [JStr ''t3_beef''])])])]"

definition seen4712 :: pstate where
  "seen4712 = \<lparr>processedRequestIds = {''4712''}, facebookTabId = JNum (- 1)\<rparr>"

definition seen4713 :: pstate where
  "seen4713 = \<lparr>processedRequestIds = {''4713''}, facebookTabId = JNum (- 1)\<rparr>"

definition seen4711 :: pstate where
  "seen4711 = \<lparr>processedRequestIds = {''4711''}, facebookTabId = JNum (- 1)\<rparr>"

text \<open>
  Callbacks whose blocking listener lets the request continue, and a handler like
  \<^verbatim>\<open>reddit.postVote\<close> with one completer (the handlers of the source have none).
\<close>

definition allowing :: callbacks where
  "allowing = \<lparr>blocking = [\<lambda>details. Returned JUndefined],
                nonblocking = [\<lambda>details. None, \<lambda>details. None]\<rparr>"

definition completing :: handler where
  "completing = (reddit_postVote exampleRuntime)\<lparr>completers := [\<lambda>ca. None]\<rparr>"

definition postVoteArgs :: vargs where
  "postVoteArgs = requestArgs 5 postVoteRequest ''reddit'' ''postVote'' ''blocking''"

definition postVoteVerifierCalls :: "call list" where
  "postVoteVerifierCalls = map (\<lambda>i. VerifierCall i postVoteArgs) [0, 1, 2, 3]"

definition postVoteExtractorCalls :: "call list" where
  "postVoteExtractorCalls = [ExtractorCall 0 (extractorArgs postVoteArgs (JObj []) (JObj []))]"

text \<open>A react request whose friendly name contains the name of the mutation and goes on.\<close>

definition longNameReactRequest :: jsval where
  "longNameReactRequest =
     JObj [(''requestId'', JStr ''1003''),
           (''url'', JStr ''https://www.facebook.com/api/graphql/''),
           (''method'', JStr ''POST''),
           (''tabId'', JNum 7),
           (''requestBody'', JObj [(''formData'',
              JObj [(''fb_api_req_friendly_name'', JArr [JStr ''UFI2FeedbackReactMutation_v2'']),
                    (''variables'', JArr [JStr reactVariables])])])]"

definition longNameReactArgs :: vargs where
  "longNameReactArgs = requestArgs 5 longNameReactRequest ''facebook'' ''react'' ''nonblocking''"

definition seenLater :: pstate where
  "seenLater = \<lparr>processedRequestIds = {''4711'', ''4712''}, facebookTabId = JNum 3\<rparr>"

definition postVoteArgs5 :: vargs where
  "postVoteArgs5 = requestArgs 5 postVoteRequest ''reddit'' ''postVote'' ''nonblocking''"

definition invalidVoteArgs5 :: vargs where
  "invalidVoteArgs5 = requestArgs 5 invalidVoteRequest ''reddit'' ''postVote'' ''nonblocking''"

section \<open>Properties of the reducer\<close>

subsection \<open>Time-of-day buckets\<close>

lemma timeOfDay_image: "timeOfDay ` {0..23} = {0, 4, 8, 12, 16, 20}"
proof
  show "timeOfDay ` {0..23} \<subseteq> {0, 4, 8, 12, 16, 20}"
  proof
    fix b assume "b \<in> timeOfDay ` {0..23}"
    then obtain hr where hr: "0 \<le> hr" "hr \<le> 23" and b: "b = (hr div 4) * 4"
      by (auto simp: timeOfDay_def)
    then show "b \<in> {0, 4, 8, 12, 16, 20}" by simp presburger
  qed
next
  have "timeOfDay 0 = 0" "timeOfDay 4 = 4" "timeOfDay 8 = 8" "timeOfDay 12 = 12"
       "timeOfDay 16 = 16" "timeOfDay 20 = 20"
    by (simp_all add: timeOfDay_def)
  then show "{0, 4, 8, 12, 16, 20} \<subseteq> timeOfDay ` {0..23}"
    by (auto simp: image_iff)
qed

lemma navCompute_group:
  assumes "nav_type navObj = ''pageVisit''"
  shows "\<exists>d c. map_of (trackedVisitsByDomain (navCompute h (k, navObj) stats))
                  (getDomain h (nav_url navObj)) = Some d
             \<and> map_of (visitsByReferrer d) (navIndex h navObj) = Some c"
  using assms by (simp add: navCompute_def Let_def update_conv')


text \<open>
  Claim C9. A page visit whose local hour of day is \<open>hr\<close>, between 0 and 23, is grouped
  under the time-of-day bucket \<open>(hr div 4) * 4\<close> by the page-navigation fold; the buckets of
  the hours 0 to 23 are exactly 0, 4, 8, 12, 16 and 20; hour 13 falls into bucket 12,
  hour 0 into bucket 0 and hour 23 into bucket 20.
\<close>

theorem timeOfDay_bucket:
  assumes "nav_type navObj = ''pageVisit''"
    and "dateGetHours h (nav_visitStart navObj) = hr"
    and "0 \<le> hr" and "hr \<le> 23"
  shows "vi_timeOfDay (navIndex h navObj) = (hr div 4) * 4
       \<and> vi_timeOfDay (navIndex h navObj) \<in> {0, 4, 8, 12, 16, 20}
       \<and> (\<exists>d c. map_of (trackedVisitsByDomain (navCompute h (k, navObj) stats))
                    (getDomain h (nav_url navObj)) = Some d
               \<and> map_of (visitsByReferrer d) (navIndex h navObj) = Some c)
       \<and> timeOfDay ` {0..23} = {0, 4, 8, 12, 16, 20}
       \<and> timeOfDay 13 = 12 \<and> timeOfDay 0 = 0 \<and> timeOfDay 23 = 20"
proof -
  have key: "vi_timeOfDay (navIndex h navObj) = timeOfDay hr"
    using assms(2) by (simp add: navIndex_def)
  have "timeOfDay hr \<in> timeOfDay ` {0..23}"
    using assms(3,4) by simp
  then have mem: "timeOfDay hr \<in> {0, 4, 8, 12, 16, 20}"
    by (simp only: timeOfDay_image)
  have ex: "timeOfDay 13 = 12 \<and> timeOfDay 0 = 0 \<and> timeOfDay 23 = 20"
    by (simp add: timeOfDay_def)
  from key mem ex navCompute_group [OF assms(1)] timeOfDay_image show ?thesis
    by (simp add: timeOfDay_def)
qed

theorem timeOfDay_bucket_witness:
  "nav_type visitAtOne = ''pageVisit''
   \<and> dateGetHours exampleHost (nav_visitStart visitAtOne) = 13
   \<and> vi_timeOfDay (navIndex exampleHost visitAtOne) = 12
   \<and> res_trackedVisitsByDomain (pageNavigationStats exampleHost [(''1'', visitAtOne)]) =
       [\<lparr>de_domain = ''news.example.com'', de_numUntrackedVisits = None,
         de_trackedVisitsByReferrer =
           [(\<lparr>vi_referrerDomain = ''t.co'', vi_dayOfWeek = 4, vi_timeOfDay = 12,
              vi_pageCategory = ''news''\<rparr>,
             \<lparr>numVisits = 1, totalAttention = 1500, laterSharedCount = 0,
              prevExposedCount = 1\<rparr>)]\<rparr>]"
proof -
  have t: "nav_type visitAtOne = ''pageVisit''" by (simp add: visitAtOne_def)
  have hr: "dateGetHours exampleHost (nav_visitStart visitAtOne) = 13"
    by (simp add: visitAtOne_def exampleHost_def)
  have r: "res_trackedVisitsByDomain (pageNavigationStats exampleHost [(''1'', visitAtOne)]) =
       [\<lparr>de_domain = ''news.example.com'', de_numUntrackedVisits = None,
         de_trackedVisitsByReferrer =
           [(\<lparr>vi_referrerDomain = ''t.co'', vi_dayOfWeek = 4, vi_timeOfDay = 12,
              vi_pageCategory = ''news''\<rparr>,
             \<lparr>numVisits = 1, totalAttention = 1500, laterSharedCount = 0,
              prevExposedCount = 1\<rparr>)]\<rparr>]"
    by (simp add: pageNavigationStats_def computeStats_def navSetup_def navCompute_def
        navGather_def navIndex_def getDomain_def visitAtOne_def exampleHost_def
        exampleHostname_def timeOfDay_def Let_def)
  from timeOfDay_bucket [OF t hr] t hr r show ?thesis by simp
qed

subsection \<open>Malformed URLs\<close>











subsection \<open>Permuted storage\<close>
































section \<open>Properties of the pipeline\<close>

subsection \<open>The calls of a run\<close>

lemma calls_cons:
  "f i # map (\<lambda>k. f (Suc i + k)) [0..<n] = map (\<lambda>k. f (i + k)) [0..<Suc n]"
  by (simp add: map_upt_Suc del: upt_Suc)

lemma runVerifiers_calls:
  assumes "runVerifiers vs i a v s tr = (p, s', tr')"
  shows "\<exists>n \<le> length vs. tr' = tr @ map (\<lambda>k. VerifierCall (i + k) a) [0..<n]
           \<and> (\<forall>x. p = Continue x \<longrightarrow> n = length vs)"
  using assms
proof (induction vs arbitrary: i v s tr)
  case Nil
  then show ?case by auto
next
  case (Cons f vs)
  obtain o1 s1 where f: "f a s = (o1, s1)" by (cases "f a s")
  show ?case
  proof (cases "\<exists>x. o1 = Returned x \<and> truthy x")
    case True
    then obtain x where x: "o1 = Returned x" "truthy x" by blast
    with Cons.prems f have "runVerifiers vs (Suc i) a x s1 (tr @ [VerifierCall i a]) = (p, s', tr')"
      by simp
    from Cons.IH [OF this] obtain n where n: "n \<le> length vs"
      "tr' = (tr @ [VerifierCall i a]) @ map (\<lambda>k. VerifierCall (Suc i + k) a) [0..<n]"
      "\<forall>x. p = Continue x \<longrightarrow> n = length vs" by blast
    have "[VerifierCall i a] @ map (\<lambda>k. VerifierCall (Suc i + k) a) [0..<n]
        = map (\<lambda>k. VerifierCall (i + k) a) [0..<Suc n]"
      using calls_cons [of "\<lambda>j. VerifierCall j a" i n] by simp
    with n(2) have "tr' = tr @ map (\<lambda>k. VerifierCall (i + k) a) [0..<Suc n]" by simp
    with n(1,3) show ?thesis
      by (intro exI [of _ "Suc n"]) simp
  next
    case False
    with Cons.prems f have "tr' = tr @ [VerifierCall i a]" and "\<forall>x. p \<noteq> Continue x"
      by (auto split: outcome.splits if_splits)
    then show ?thesis
      by (intro exI [of _ "Suc 0"]) simp
  qed
qed

lemma runExtractors_calls:
  assumes "runExtractors es i a verified d tr = (p, tr')"
  shows "\<exists>calls. tr' = tr @ calls \<and> length calls \<le> length es
           \<and> map callKind calls = map (\<lambda>k. (1, i + k)) [0..<length calls]
           \<and> (\<forall>x. p = Continue x \<longrightarrow> length calls = length es)
           \<and> (\<forall>c \<in> set calls. \<exists>j ea. c = ExtractorCall j ea \<and> ea_verified ea = verified)"
  using assms
proof (induction es arbitrary: i d tr)
  case Nil
  then show ?case by auto
next
  case (Cons f es)
  define ea where "ea = \<lparr>ea_requestDetails = va_requestDetails a, ea_details = d,
                ea_verified = verified, ea_platform = va_platform a,
                ea_eventType = va_eventType a, ea_blockingType = va_blockingType a,
                ea_eventTime = va_eventTime a\<rparr>"
  have v: "ea_verified ea = verified" by (simp add: ea_def)
  show ?case
  proof (cases "\<exists>x. f ea = Returned x \<and> truthy x")
    case True
    then obtain x where x: "f ea = Returned x" "truthy x" by blast
    with Cons.prems have "runExtractors es (Suc i) a verified x (tr @ [ExtractorCall i ea]) = (p, tr')"
      by (simp add: ea_def Let_def)
    from Cons.IH [OF this] obtain calls where c:
      "tr' = (tr @ [ExtractorCall i ea]) @ calls" "length calls \<le> length es"
      "map callKind calls = map (\<lambda>k. (1, Suc i + k)) [0..<length calls]"
      "\<forall>x. p = Continue x \<longrightarrow> length calls = length es"
      "\<forall>c \<in> set calls. \<exists>j ea. c = ExtractorCall j ea \<and> ea_verified ea = verified"
      by blast
    have "map callKind (ExtractorCall i ea # calls)
        = map (\<lambda>k. (1, i + k)) [0..<length (ExtractorCall i ea # calls)]"
      using c(3) calls_cons [of "Pair (1::nat)" i "length calls"] by simp
    with c(1,2,4,5) v show ?thesis
      by (intro exI [of _ "ExtractorCall i ea # calls"]) auto
  next
    case False
    with Cons.prems have "tr' = tr @ [ExtractorCall i ea]" and "\<forall>x. p \<noteq> Continue x"
      by (auto simp: ea_def Let_def split: outcome.splits if_splits)
    with v show ?thesis
      by (intro exI [of _ "[ExtractorCall i ea]"]) auto
  qed
qed

lemma runListeners_calls:
  assumes "runListeners ls i d tr = (r, tr')"
  shows "\<exists>n \<le> length ls. tr' = tr @ map (\<lambda>k. NonblockingCall (i + k) d) [0..<n]
           \<and> (r = None \<longrightarrow> n = length ls)"
  using assms
proof (induction ls arbitrary: i tr)
  case Nil
  then show ?case by auto
next
  case (Cons f ls)
  show ?case
  proof (cases "f d")
    case None
    with Cons.prems have "runListeners ls (Suc i) d (tr @ [NonblockingCall i d]) = (r, tr')"
      by simp
    from Cons.IH [OF this] obtain n where n: "n \<le> length ls"
      "tr' = (tr @ [NonblockingCall i d]) @ map (\<lambda>k. NonblockingCall (Suc i + k) d) [0..<n]"
      "r = None \<longrightarrow> n = length ls" by blast
    have "tr' = tr @ map (\<lambda>k. NonblockingCall (i + k) d) [0..<Suc n]"
      using n(2) calls_cons [of "\<lambda>j. NonblockingCall j d" i n] by simp
    with n(1,3) show ?thesis
      by (intro exI [of _ "Suc n"]) simp
  next
    case (Some e)
    with Cons.prems have "tr' = tr @ [NonblockingCall i d]" and "r \<noteq> None"
      by (auto simp: eq_commute [of "Some e"])
    then show ?thesis
      by (intro exI [of _ "Suc 0"]) auto
  qed
qed

lemma runCompleters_calls:
  assumes "runCompleters cs i ca tr = (r, tr')"
  shows "\<exists>n \<le> length cs. tr' = tr @ map (\<lambda>k. CompleterCall (i + k) ca) [0..<n]
           \<and> (r = None \<longrightarrow> n = length cs)"
  using assms
proof (induction cs arbitrary: i tr)
  case Nil
  then show ?case by auto
next
  case (Cons f cs)
  show ?case
  proof (cases "f ca")
    case None
    with Cons.prems have "runCompleters cs (Suc i) ca (tr @ [CompleterCall i ca]) = (r, tr')"
      by simp
    from Cons.IH [OF this] obtain n where n: "n \<le> length cs"
      "tr' = (tr @ [CompleterCall i ca]) @ map (\<lambda>k. CompleterCall (Suc i + k) ca) [0..<n]"
      "r = None \<longrightarrow> n = length cs" by blast
    have "tr' = tr @ map (\<lambda>k. CompleterCall (i + k) ca) [0..<Suc n]"
      using n(2) calls_cons [of "\<lambda>j. CompleterCall j ca" i n] by simp
    with n(1,3) show ?thesis
      by (intro exI [of _ "Suc n"]) simp
  next
    case (Some e)
    with Cons.prems have "tr' = tr @ [CompleterCall i ca]" and "r \<noteq> None"
      by (auto simp: eq_commute [of "Some e"])
    then show ?thesis
      by (intro exI [of _ "Suc 0"]) auto
  qed
qed

lemma deliver_calls:
  assumes "deliver h cb a v d tr = (r, tr')"
  shows "\<exists>nn nc. map callKind tr' = map callKind tr @ map (Pair 3) [0..<nn] @ map (Pair 4) [0..<nc]
           \<and> nn \<le> length (nonblocking cb) \<and> nc \<le> length (completers h)
           \<and> (0 < nc \<longrightarrow> nn = length (nonblocking cb))"
proof -
  obtain r1 tr1 where l: "runListeners (nonblocking cb) 0 d tr = (r1, tr1)"
    by (cases "runListeners (nonblocking cb) 0 d tr")
  from runListeners_calls [OF l] obtain nn where nn: "nn \<le> length (nonblocking cb)"
    "tr1 = tr @ map (\<lambda>k. NonblockingCall (0 + k) d) [0..<nn]"
    "r1 = None \<longrightarrow> nn = length (nonblocking cb)" by blast
  have k1: "map callKind tr1 = map callKind tr @ map (Pair 3) [0..<nn]"
    using nn(2) by (simp add: o_def)
  show ?thesis
  proof (cases r1)
    case (Some e)
    with assms l have "tr' = tr1" by (simp add: deliver_def)
    with k1 nn(1) show ?thesis
      by (intro exI [of _ nn] exI [of _ 0]) simp
  next
    case None
    define ca where "ca = \<lparr>ca_requestDetails = va_requestDetails a, ca_verified = v,
                   ca_details = d, ca_platform = va_platform a,
                   ca_eventType = va_eventType a, ca_blockingType = va_blockingType a\<rparr>"
    obtain r2 tr2 where c: "runCompleters (completers h) 0 ca tr1 = (r2, tr2)"
      by (cases "runCompleters (completers h) 0 ca tr1")
    from runCompleters_calls [OF c] obtain nc where nc: "nc \<le> length (completers h)"
      "tr2 = tr1 @ map (\<lambda>k. CompleterCall (0 + k) ca) [0..<nc]" by blast
    from assms l c None have "tr' = tr2"
      by (auto simp: deliver_def ca_def split: option.splits)
    with nc(2) k1 have "map callKind tr' = map callKind tr @ map (Pair 3) [0..<nn] @ map (Pair 4) [0..<nc]"
      by (simp add: o_def)
    with nn(1,3) nc(1) None show ?thesis
      by (intro exI [of _ nn] exI [of _ nc]) simp
  qed
qed

lemma deliver_calls_from:
  assumes "deliver h cb a v d tr = (r, tr')"
    and "map callKind tr = callShape nv ne nb 0 0"
  shows "\<exists>nn nc. map callKind tr' = callShape nv ne nb nn nc
           \<and> nn \<le> length (nonblocking cb) \<and> nc \<le> length (completers h)
           \<and> (0 < nc \<longrightarrow> nn = length (nonblocking cb))"
  using deliver_calls [OF assms(1)] assms(2) by (simp add: callShape_def)

lemma callShape_simps:
  "callShape nv 0 0 0 0 = map (Pair 0) [0..<nv]"
  "callShape nv ne 0 0 0 = map (Pair 0) [0..<nv] @ map (Pair 1) [0..<ne]"
  "callShape nv ne (Suc 0) 0 0 = map (Pair 0) [0..<nv] @ map (Pair 1) [0..<ne] @ [(2, 0)]"
  by (simp_all add: callShape_def)

lemma notify_calls:
  assumes "notify h cb a v d tr = (r, tr')"
    and "map callKind tr = callShape nv ne 0 0 0"
    and "nv = length (verifiers h)" and "ne = length (extractors h)"
  shows "\<exists>nb nn nc. map callKind tr' = callShape nv ne nb nn nc
           \<and> stepCounts h cb (va_blockingType a) nv ne nb nn nc"
proof (cases "va_blockingType a = ''blocking''")
  case False
  with assms(1) have "deliver h cb a v d tr = (r, tr')" by (simp add: notify_def)
  from deliver_calls_from [OF this assms(2)] obtain nn nc where
    "map callKind tr' = callShape nv ne 0 nn nc" "nn \<le> length (nonblocking cb)"
    "nc \<le> length (completers h)" "0 < nc \<longrightarrow> nn = length (nonblocking cb)" by blast
  with False assms(3,4) show ?thesis
    by (intro exI [of _ 0] exI [of _ nn] exI [of _ nc]) (simp add: stepCounts_def)
next
  case True
  show ?thesis
  proof (cases "blocking cb")
    case Nil
    with True assms(1) have "tr' = tr" by (simp add: notify_def)
    with assms(2,3,4) show ?thesis
      by (intro exI [of _ 0]) (simp add: stepCounts_def)
  next
    case (Cons callback others)
    have b: "map callKind (tr @ [BlockingCall d]) = callShape nv ne (Suc 0) 0 0"
      using assms(2) by (simp add: callShape_simps)
    show ?thesis
    proof (cases "\<exists>x. callback d = Returned x \<and> cancels x = Inr False")
      case False
      with True Cons assms(1) have "tr' = tr @ [BlockingCall d]"
        by (auto simp: notify_def split: outcome.splits sum.splits bool.splits)
      with b True assms(3,4) show ?thesis
        by (intro exI [of _ "Suc 0"] exI [of _ 0]) (simp add: stepCounts_def)
    next
      case go: True
      with True Cons assms(1) have "deliver h cb a v d (tr @ [BlockingCall d]) = (r, tr')"
        by (auto simp: notify_def)
      from deliver_calls_from [OF this b] obtain nn nc where
        "map callKind tr' = callShape nv ne (Suc 0) nn nc" "nn \<le> length (nonblocking cb)"
        "nc \<le> length (completers h)" "0 < nc \<longrightarrow> nn = length (nonblocking cb)" by blast
      with True assms(3,4) show ?thesis
        by (intro exI [of _ "Suc 0"] exI [of _ nn] exI [of _ nc]) (simp add: stepCounts_def)
    qed
  qed
qed

lemma notify_cancel:
  assumes "notify h cb a v d tr = (r, tr')"
    and "va_blockingType a = ''blocking''" and "blocking cb = callback # others"
    and "callback d = Returned decision" and "cancels decision = Inr True"
  shows "r = Returned decision \<and> tr' = tr @ [BlockingCall d]"
  using assms by (simp add: notify_def)

lemma handleGenericEvent_cases:
  assumes "handleGenericEvent h cb t rd p e b s = (r, s', tr)"
  obtains
    (verifier_stop) "runVerifiers (verifiers h) 0 (requestArgs t rd p e b) JNull s [] = (Stop r, s', tr)"
  | (tab_throw) verified err where
      "runVerifiers (verifiers h) 0 (requestArgs t rd p e b) JNull s [] = (Continue verified, s', tr)"
      "recordTab p rd s' = Inl err" "r = Thrown err"
  | (extractor_stop) verified s1 tr1 where
      "runVerifiers (verifiers h) 0 (requestArgs t rd p e b) JNull s [] = (Continue verified, s1, tr1)"
      "recordTab p rd s1 = Inr s'"
      "runExtractors (extractors h) 0 (requestArgs t rd p e b) verified (JObj []) tr1 = (Stop r, tr)"
  | (notified) verified s1 tr1 details tr2 where
      "runVerifiers (verifiers h) 0 (requestArgs t rd p e b) JNull s [] = (Continue verified, s1, tr1)"
      "recordTab p rd s1 = Inr s'"
      "runExtractors (extractors h) 0 (requestArgs t rd p e b) verified (JObj []) tr1
         = (Continue details, tr2)"
      "notify h cb (requestArgs t rd p e b) verified details tr2 = (r, tr)"
proof -
  obtain pv s1 tr1 where v: "runVerifiers (verifiers h) 0 (requestArgs t rd p e b) JNull s [] = (pv, s1, tr1)"
    by (cases "runVerifiers (verifiers h) 0 (requestArgs t rd p e b) JNull s []")
  show thesis
  proof (cases pv)
    case (Stop x)
    with assms v have "x = r" "s1 = s'" "tr1 = tr"
      by (simp_all add: handleGenericEvent_def requestArgs_def)
    with v Stop show thesis by (intro verifier_stop) simp
  next
    case (Continue verified)
    show thesis
    proof (cases "recordTab p rd s1")
      case (Inl err)
      with assms v Continue have "r = Thrown err" "s1 = s'" "tr1 = tr"
        by (simp_all add: handleGenericEvent_def requestArgs_def)
      with v Continue Inl show thesis by (intro tab_throw [of verified err]) simp_all
    next
      case (Inr s2)
      obtain pe tr2 where x: "runExtractors (extractors h) 0 (requestArgs t rd p e b) verified (JObj []) tr1 = (pe, tr2)"
        by (cases "runExtractors (extractors h) 0 (requestArgs t rd p e b) verified (JObj []) tr1")
      show thesis
      proof (cases pe)
        case (Stop y)
        with assms v Continue Inr x have "y = r" "s2 = s'" "tr2 = tr"
          by (simp_all add: handleGenericEvent_def requestArgs_def)
        with v Continue Inr x Stop show thesis
          by (intro extractor_stop [of verified s1 tr1]) simp_all
      next
        case c: (Continue details)
        obtain r3 tr3 where n: "notify h cb (requestArgs t rd p e b) verified details tr2 = (r3, tr3)"
          by (cases "notify h cb (requestArgs t rd p e b) verified details tr2")
        with assms v Continue Inr x c have "r3 = r" "s2 = s'" "tr3 = tr"
          by (simp_all add: handleGenericEvent_def requestArgs_def)
        with v Continue Inr x c n show thesis
          by (intro notified [of verified s1 tr1 details tr2]) simp_all
      qed
    qed
  qed
qed

lemma verifier_kinds:
  "map callKind (map (\<lambda>k. VerifierCall (0 + k) a) [0..<n]) = callShape n 0 0 0 0"
  by (simp add: callShape_def o_def)

lemma callShape_phase:
  assumes "map callKind tr = callShape nv ne nb 0 0" and "c \<in> set tr"
  shows "fst (callKind c) < 3"
proof -
  from assms(2) have "callKind c \<in> set (map callKind tr)" by simp
  then show ?thesis unfolding assms(1) by (auto simp: callShape_def)
qed

lemma allReturn_called: "allReturn fs x \<Longrightarrow> calledOf fs x = length fs"
  by (induction fs) (auto simp: allReturn_def)

lemma runListeners_exact:
  assumes "runListeners ls i d tr = (r, tr')"
  shows "tr' = tr @ map (\<lambda>k. NonblockingCall (i + k) d) [0..<calledOf ls d]
       \<and> (r = None \<longleftrightarrow> allReturn ls d)"
  using assms
proof (induction ls arbitrary: i tr)
  case Nil
  then show ?case by (auto simp: allReturn_def)
next
  case (Cons f ls)
  show ?case
  proof (cases "f d")
    case None
    with Cons.prems have "runListeners ls (Suc i) d (tr @ [NonblockingCall i d]) = (r, tr')"
      by simp
    from Cons.IH [OF this] have ih:
      "tr' = (tr @ [NonblockingCall i d]) @ map (\<lambda>k. NonblockingCall (Suc i + k) d) [0..<calledOf ls d]"
      "r = None \<longleftrightarrow> allReturn ls d" by blast+
    have "tr' = tr @ map (\<lambda>k. NonblockingCall (i + k) d) [0..<Suc (calledOf ls d)]"
      using ih(1) calls_cons [of "\<lambda>j. NonblockingCall j d" i "calledOf ls d"] by simp
    with ih(2) None show ?thesis by (simp add: allReturn_def)
  next
    case (Some e)
    with Cons.prems have "tr' = tr @ [NonblockingCall i d]" and "r \<noteq> None"
      by (auto simp: eq_commute [of "Some e"])
    with Some show ?thesis by (simp add: allReturn_def)
  qed
qed

lemma runCompleters_exact:
  assumes "runCompleters cs i ca tr = (r, tr')"
  shows "tr' = tr @ map (\<lambda>k. CompleterCall (i + k) ca) [0..<calledOf cs ca]
       \<and> (r = None \<longleftrightarrow> allReturn cs ca)"
  using assms
proof (induction cs arbitrary: i tr)
  case Nil
  then show ?case by (auto simp: allReturn_def)
next
  case (Cons f cs)
  show ?case
  proof (cases "f ca")
    case None
    with Cons.prems have "runCompleters cs (Suc i) ca (tr @ [CompleterCall i ca]) = (r, tr')"
      by simp
    from Cons.IH [OF this] have ih:
      "tr' = (tr @ [CompleterCall i ca]) @ map (\<lambda>k. CompleterCall (Suc i + k) ca) [0..<calledOf cs ca]"
      "r = None \<longleftrightarrow> allReturn cs ca" by blast+
    have "tr' = tr @ map (\<lambda>k. CompleterCall (i + k) ca) [0..<Suc (calledOf cs ca)]"
      using ih(1) calls_cons [of "\<lambda>j. CompleterCall j ca" i "calledOf cs ca"] by simp
    with ih(2) None show ?thesis by (simp add: allReturn_def)
  next
    case (Some e)
    with Cons.prems have "tr' = tr @ [CompleterCall i ca]" and "r \<noteq> None"
      by (auto simp: eq_commute [of "Some e"])
    with Some show ?thesis by (simp add: allReturn_def)
  qed
qed

lemma deliver_exact:
  assumes "deliver h cb a v d tr = (r, tr')"
  shows "tr' = tr @ map (\<lambda>k. NonblockingCall k d) [0..<calledOf (nonblocking cb) d]
              @ (if allReturn (nonblocking cb) d
                 then map (\<lambda>k. CompleterCall k (completerArgs a v d))
                        [0..<calledOf (completers h) (completerArgs a v d)]
                 else [])
       \<and> (r = Returned JUndefined
            \<longleftrightarrow> allReturn (nonblocking cb) d \<and> allReturn (completers h) (completerArgs a v d))"
proof -
  obtain r1 tr1 where l: "runListeners (nonblocking cb) 0 d tr = (r1, tr1)"
    by (cases "runListeners (nonblocking cb) 0 d tr")
  from runListeners_exact [OF l] have l1:
    "tr1 = tr @ map (\<lambda>k. NonblockingCall k d) [0..<calledOf (nonblocking cb) d]"
    "r1 = None \<longleftrightarrow> allReturn (nonblocking cb) d" by simp_all
  show ?thesis
  proof (cases r1)
    case (Some e)
    with assms l have "tr' = tr1" "r = Thrown e" by (simp_all add: deliver_def)
    with l1 Some show ?thesis by simp
  next
    case None
    obtain r2 tr2 where c: "runCompleters (completers h) 0 (completerArgs a v d) tr1 = (r2, tr2)"
      by (cases "runCompleters (completers h) 0 (completerArgs a v d) tr1")
    from runCompleters_exact [OF c] have c1:
      "tr2 = tr1 @ map (\<lambda>k. CompleterCall k (completerArgs a v d))
                     [0..<calledOf (completers h) (completerArgs a v d)]"
      "r2 = None \<longleftrightarrow> allReturn (completers h) (completerArgs a v d)" by simp_all
    from assms l c None have "tr' = tr2" "r = (case r2 of Some e \<Rightarrow> Thrown e | None \<Rightarrow> Returned JUndefined)"
      by (auto simp: deliver_def completerArgs_def split: option.splits)
    with l1 c1 None show ?thesis by (auto split: option.splits)
  qed
qed

lemma pipeline_complete:
  assumes run: "handleGenericEvent h cb t rd p e b s = (r, s', tr)"
    and v: "runVerifiers (verifiers h) 0 (requestArgs t rd p e b) JNull s [] = (Continue verified, s1, tr1)"
    and tab: "recordTab p rd s1 = Inr s2"
    and x: "runExtractors (extractors h) 0 (requestArgs t rd p e b) verified (JObj []) tr1
              = (Continue details, tr2)"
    and go: "b = ''blocking'' \<longrightarrow>
               (\<exists>callback others decision. blocking cb = callback # others
                  \<and> callback details = Returned decision \<and> cancels decision = Inr False)"
  shows "map callKind tr2 = callShape (length (verifiers h)) (length (extractors h)) 0 0 0
       \<and> tr = tr2 @ (if b = ''blocking'' then [BlockingCall details] else [])
              @ map (\<lambda>k. NonblockingCall k details) [0..<calledOf (nonblocking cb) details]
              @ (if allReturn (nonblocking cb) details
                 then map (\<lambda>k. CompleterCall k (completerArgs (requestArgs t rd p e b) verified details))
                        [0..<calledOf (completers h)
                               (completerArgs (requestArgs t rd p e b) verified details)]
                 else [])
       \<and> (r = Returned JUndefined
            \<longleftrightarrow> allReturn (nonblocking cb) details
                \<and> allReturn (completers h) (completerArgs (requestArgs t rd p e b) verified details))"
proof -
  let ?a = "requestArgs t rd p e b"
  from runVerifiers_calls [OF v] obtain n where n: "n = length (verifiers h)"
    "tr1 = [] @ map (\<lambda>k. VerifierCall (0 + k) ?a) [0..<n]" by blast
  from runExtractors_calls [OF x] obtain calls where c:
    "tr2 = tr1 @ calls" "length calls = length (extractors h)"
    "map callKind calls = map (\<lambda>k. (1, 0 + k)) [0..<length calls]" by blast
  have k2: "map callKind tr2 = callShape (length (verifiers h)) (length (extractors h)) 0 0 0"
    using n c by (simp add: callShape_def o_def)
  have bt: "va_blockingType ?a = b" by (simp add: requestArgs_def)
  from run v tab x have nt: "notify h cb ?a verified details tr2 = (r, tr)"
    by (simp add: handleGenericEvent_def requestArgs_def split: prod.splits)
  have "\<exists>tr3. deliver h cb ?a verified details tr3 = (r, tr)
          \<and> tr3 = tr2 @ (if b = ''blocking'' then [BlockingCall details] else [])"
  proof (cases "b = ''blocking''")
    case True
    with go obtain callback others decision where "blocking cb = callback # others"
      "callback details = Returned decision" "cancels decision = Inr False" by blast
    with nt bt True show ?thesis by (simp add: notify_def)
  next
    case False
    with nt bt show ?thesis by (simp add: notify_def)
  qed
  then obtain tr3 where d: "deliver h cb ?a verified details tr3 = (r, tr)"
    and t3: "tr3 = tr2 @ (if b = ''blocking'' then [BlockingCall details] else [])" by blast
  from deliver_exact [OF d] t3 k2 show ?thesis by simp
qed

lemma pipeline_calls:
  assumes "handleGenericEvent h cb t rd p e b s = (r, s', tr)"
  shows "(\<exists>nv ne nb nn nc. map callKind tr = callShape nv ne nb nn nc
            \<and> stepCounts h cb b nv ne nb nn nc)
       \<and> (\<forall>callback others d decision.
             blocking cb = callback # others \<and> BlockingCall d \<in> set tr
             \<and> callback d = Returned decision \<and> cancels decision = Inr True
             \<longrightarrow> r = Returned decision \<and> (\<forall>c \<in> set tr. fst (callKind c) < 3))"
  using assms
proof (cases rule: handleGenericEvent_cases)
  case verifier_stop
  from runVerifiers_calls [OF this] obtain n where n: "n \<le> length (verifiers h)"
    "tr = [] @ map (\<lambda>k. VerifierCall (0 + k) (requestArgs t rd p e b)) [0..<n]" by blast
  then have k: "map callKind tr = callShape n 0 0 0 0"
    by (simp only: append_Nil verifier_kinds)
  have "stepCounts h cb b n 0 0 0 0" using n(1) by (simp add: stepCounts_def)
  moreover have "\<forall>d. BlockingCall d \<notin> set tr" using n(2) by auto
  ultimately show ?thesis using k by blast
next
  case (tab_throw verified err)
  from runVerifiers_calls [OF tab_throw(1)] obtain n where n: "n \<le> length (verifiers h)"
    "tr = [] @ map (\<lambda>k. VerifierCall (0 + k) (requestArgs t rd p e b)) [0..<n]" by blast
  then have k: "map callKind tr = callShape n 0 0 0 0"
    by (simp only: append_Nil verifier_kinds)
  have "stepCounts h cb b n 0 0 0 0" using n(1) by (simp add: stepCounts_def)
  moreover have "\<forall>d. BlockingCall d \<notin> set tr" using n(2) by auto
  ultimately show ?thesis using k by blast
next
  case (extractor_stop verified s1 tr1)
  from runVerifiers_calls [OF extractor_stop(1)] obtain n where n: "n = length (verifiers h)"
    "tr1 = [] @ map (\<lambda>k. VerifierCall (0 + k) (requestArgs t rd p e b)) [0..<n]" by blast
  from runExtractors_calls [OF extractor_stop(3)] obtain calls where c:
    "tr = tr1 @ calls" "length calls \<le> length (extractors h)"
    "map callKind calls = map (\<lambda>k. (1, 0 + k)) [0..<length calls]"
    "\<forall>c \<in> set calls. \<exists>j ea. c = ExtractorCall j ea \<and> ea_verified ea = verified" by blast
  have k: "map callKind tr = callShape n (length calls) 0 0 0"
    using n(2) c(1,3) by (simp add: callShape_def o_def)
  have "stepCounts h cb b n (length calls) 0 0 0" using n(1) c(2) by (simp add: stepCounts_def)
  moreover have "\<forall>d. BlockingCall d \<notin> set tr" using n(2) c(1,4) by auto
  ultimately show ?thesis using k by blast
next
  case (notified verified s1 tr1 details tr2)
  from runVerifiers_calls [OF notified(1)] obtain n where n: "n = length (verifiers h)"
    "tr1 = [] @ map (\<lambda>k. VerifierCall (0 + k) (requestArgs t rd p e b)) [0..<n]" by blast
  from runExtractors_calls [OF notified(3)] obtain calls where c:
    "tr2 = tr1 @ calls" "length calls = length (extractors h)"
    "map callKind calls = map (\<lambda>k. (1, 0 + k)) [0..<length calls]"
    "\<forall>c \<in> set calls. \<exists>j ea. c = ExtractorCall j ea \<and> ea_verified ea = verified" by blast
  have k2: "map callKind tr2 = callShape n (length calls) 0 0 0"
    using n(2) c(1,3) by (simp add: callShape_def o_def)
  have nb2: "\<forall>d. BlockingCall d \<notin> set tr2" using n(2) c(1,4) by auto
  have bt: "va_blockingType (requestArgs t rd p e b) = b" by (simp add: requestArgs_def)
  from notify_calls [OF notified(4) k2 n(1) c(2)] bt
  have first: "\<exists>nv ne nb nn nc. map callKind tr = callShape nv ne nb nn nc
            \<and> stepCounts h cb b nv ne nb nn nc" by (simp only:) blast
  have second: "r = Returned decision \<and> (\<forall>c \<in> set tr. fst (callKind c) < 3)"
    if a: "blocking cb = callback # others" "BlockingCall d \<in> set tr"
      "callback d = Returned decision" "cancels decision = Inr True"
    for callback others d decision
  proof -
    have blk: "b = ''blocking''"
    proof (rule ccontr)
      assume "b \<noteq> ''blocking''"
      with notified(4) bt have "deliver h cb (requestArgs t rd p e b) verified details tr2 = (r, tr)"
        by (simp add: notify_def)
      then have "\<forall>d. BlockingCall d \<notin> set tr" using nb2
        by (auto simp: deliver_def split: prod.splits option.splits
            dest!: runListeners_calls runCompleters_calls)
      with a(2) show False by simp
    qed
    have dd: "d = details"
    proof -
      from notified(4) blk a(1) bt have "tr = tr2 @ [BlockingCall details]
        \<or> deliver h cb (requestArgs t rd p e b) verified details (tr2 @ [BlockingCall details]) = (r, tr)"
        by (auto simp: notify_def split: outcome.splits sum.splits bool.splits)
      then have "\<forall>x. BlockingCall x \<in> set tr \<longrightarrow> x = details" using nb2
        by (auto simp: deliver_def split: prod.splits option.splits
            dest!: runListeners_calls runCompleters_calls)
      with a(2) show ?thesis by simp
    qed
    from notify_cancel [OF notified(4) _ a(1) a(3) [unfolded dd] a(4)] bt blk
    have r: "r = Returned decision" and t: "tr = tr2 @ [BlockingCall details]" by simp_all
    have "map callKind tr = callShape n (length calls) (Suc 0) 0 0"
      using k2 t by (simp add: callShape_simps)
    then have "\<forall>c \<in> set tr. fst (callKind c) < 3" using callShape_phase by blast
    with r show ?thesis by simp
  qed
  from first second show ?thesis by blast
qed

lemmas run_defs = handleGenericEvent_def notify_def deliver_def recordTab_def cancels_def
  pureVerifier_def settled_def formDataOf_def getPath_def andThen_def hasProp_def
  verifyPostReq_def verifyReadableFormData_def verifyNewRequest_def
  redditVoteCheck_def verifyRedditPostVote_def verifyRedditCommentVote_def
  extractRedditPostVote_def extractRedditCommentVote_def
  reddit_postVote_def reddit_commentVote_def
  looseEqStr_def greaterThan_def looseEqNum_def
  exampleRuntime_def exampleNumber_def exampleParse_def isDigit_def
  startState_def oneListener_def Let_def

lemma postVote_cancelled_run:
  "handleGenericEvent (reddit_postVote exampleRuntime) cancelling 5 postVoteRequest
     ''reddit'' ''postVote'' ''blocking'' startState
   = (Returned cancelDecision,
      \<lparr>processedRequestIds = {''4712''}, facebookTabId = JNum (- 1)\<rparr>,
      map (\<lambda>i. VerifierCall i (requestArgs 5 postVoteRequest ''reddit'' ''postVote'' ''blocking''))
          [0, 1, 2, 3]
      @ [ExtractorCall 0
           \<lparr>ea_requestDetails = postVoteRequest, ea_details = JObj [], ea_verified = JObj [],
            ea_platform = ''reddit'', ea_eventType = ''postVote'',
            ea_blockingType = ''blocking'', ea_eventTime = 5\<rparr>,
         BlockingCall postVoteDetails])"
  by (simp add: run_defs requestArgs_def postVoteRequest_def cancelling_def cancelDecision_def
      postVoteDetails_def)

lemma postVote_allowed_run:
  "handleGenericEvent completing allowing 5 postVoteRequest ''reddit'' ''postVote'' ''blocking''
     startState
   = (Returned JUndefined, seen4712,
      postVoteVerifierCalls @ postVoteExtractorCalls
      @ [BlockingCall postVoteDetails,
         NonblockingCall 0 postVoteDetails, NonblockingCall 1 postVoteDetails,
         CompleterCall 0 (completerArgs postVoteArgs (JObj []) postVoteDetails)])"
  by code_simp

lemma postVote_allowed_verifiers:
  "runVerifiers (verifiers completing) 0 postVoteArgs JNull startState []
   = (Continue (JObj []), seen4712, postVoteVerifierCalls)"
  by code_simp

lemma postVote_allowed_extractors:
  "runExtractors (extractors completing) 0 postVoteArgs (JObj []) (JObj []) postVoteVerifierCalls
   = (Continue postVoteDetails, postVoteVerifierCalls @ postVoteExtractorCalls)"
  by code_simp

text \<open>
  Claim C5. The calls of a run of \<^verbatim>\<open>handleGenericEvent\<close> are, in this order: verifiers in
  list order, extractors in list order, the blocking listener (at most once, and only in
  blocking mode), the nonblocking listeners in list order, the completers in list order;
  a step is begun only when the one before is complete. When the blocking listener's
  decision has a \<^verbatim>\<open>cancel\<close> property, the run returns that decision and calls no
  nonblocking listener and no completer. When the verifiers and the extractors accept the
  request and the blocking listener, if the mode is blocking, returns a decision without
  \<^verbatim>\<open>cancel\<close>, the run goes on after the calls made so far with exactly these calls: the
  blocking listener in blocking mode, then every nonblocking listener with the extracted
  details, in list order up to the first that throws, then (if none threw) every completer
  in list order up to the first that throws; it returns undefined exactly when none of
  them threw.
\<close>

theorem pipeline_order:
  assumes "handleGenericEvent h cb t rd p e b s = (r, s', tr)"
  shows "(\<exists>nv ne nb nn nc. map callKind tr = callShape nv ne nb nn nc
            \<and> stepCounts h cb b nv ne nb nn nc)
       \<and> (\<forall>callback others d decision.
             blocking cb = callback # others \<and> BlockingCall d \<in> set tr
             \<and> callback d = Returned decision \<and> cancels decision = Inr True
             \<longrightarrow> r = Returned decision \<and> (\<forall>c \<in> set tr. fst (callKind c) < 3))
       \<and> (\<forall>verified s1 s2 tr1 details tr2.
             runVerifiers (verifiers h) 0 (requestArgs t rd p e b) JNull s []
               = (Continue verified, s1, tr1)
             \<and> recordTab p rd s1 = Inr s2
             \<and> runExtractors (extractors h) 0 (requestArgs t rd p e b) verified (JObj []) tr1
                 = (Continue details, tr2)
             \<and> (b = ''blocking'' \<longrightarrow>
                  (\<exists>callback others decision. blocking cb = callback # others
                     \<and> callback details = Returned decision \<and> cancels decision = Inr False))
             \<longrightarrow> map callKind tr2
                   = callShape (length (verifiers h)) (length (extractors h)) 0 0 0
               \<and> tr = tr2 @ (if b = ''blocking'' then [BlockingCall details] else [])
                      @ map (\<lambda>k. NonblockingCall k details)
                          [0..<calledOf (nonblocking cb) details]
                      @ (if allReturn (nonblocking cb) details
                         then map (\<lambda>k. CompleterCall k
                                     (completerArgs (requestArgs t rd p e b) verified details))
                                [0..<calledOf (completers h)
                                       (completerArgs (requestArgs t rd p e b) verified details)]
                         else [])
               \<and> (r = Returned JUndefined
                    \<longleftrightarrow> allReturn (nonblocking cb) details
                        \<and> allReturn (completers h)
                            (completerArgs (requestArgs t rd p e b) verified details)))"
proof (intro conjI)
  show "\<exists>nv ne nb nn nc. map callKind tr = callShape nv ne nb nn nc
          \<and> stepCounts h cb b nv ne nb nn nc"
    using pipeline_calls [OF assms] by blast
  show "\<forall>callback others d decision.
          blocking cb = callback # others \<and> BlockingCall d \<in> set tr
          \<and> callback d = Returned decision \<and> cancels decision = Inr True
          \<longrightarrow> r = Returned decision \<and> (\<forall>c \<in> set tr. fst (callKind c) < 3)"
    using pipeline_calls [OF assms] by blast
  show "\<forall>verified s1 s2 tr1 details tr2.
          runVerifiers (verifiers h) 0 (requestArgs t rd p e b) JNull s []
            = (Continue verified, s1, tr1)
          \<and> recordTab p rd s1 = Inr s2
          \<and> runExtractors (extractors h) 0 (requestArgs t rd p e b) verified (JObj []) tr1
              = (Continue details, tr2)
          \<and> (b = ''blocking'' \<longrightarrow>
               (\<exists>callback others decision. blocking cb = callback # others
                  \<and> callback details = Returned decision \<and> cancels decision = Inr False))
          \<longrightarrow> map callKind tr2
                = callShape (length (verifiers h)) (length (extractors h)) 0 0 0
            \<and> tr = tr2 @ (if b = ''blocking'' then [BlockingCall details] else [])
                   @ map (\<lambda>k. NonblockingCall k details)
                       [0..<calledOf (nonblocking cb) details]
                   @ (if allReturn (nonblocking cb) details
                      then map (\<lambda>k. CompleterCall k
                                  (completerArgs (requestArgs t rd p e b) verified details))
                             [0..<calledOf (completers h)
                                    (completerArgs (requestArgs t rd p e b) verified details)]
                      else [])
            \<and> (r = Returned JUndefined
                 \<longleftrightarrow> allReturn (nonblocking cb) details
                     \<and> allReturn (completers h)
                         (completerArgs (requestArgs t rd p e b) verified details))"
  proof (intro allI impI, elim conjE)
    fix verified s1 s2 tr1 details tr2
    assume "runVerifiers (verifiers h) 0 (requestArgs t rd p e b) JNull s []
              = (Continue verified, s1, tr1)"
      and "recordTab p rd s1 = Inr s2"
      and "runExtractors (extractors h) 0 (requestArgs t rd p e b) verified (JObj []) tr1
             = (Continue details, tr2)"
      and "b = ''blocking'' \<longrightarrow>
             (\<exists>callback others decision. blocking cb = callback # others
                \<and> callback details = Returned decision \<and> cancels decision = Inr False)"
    from pipeline_complete [OF assms this]
    show "map callKind tr2
            = callShape (length (verifiers h)) (length (extractors h)) 0 0 0
        \<and> tr = tr2 @ (if b = ''blocking'' then [BlockingCall details] else [])
               @ map (\<lambda>k. NonblockingCall k details)
                   [0..<calledOf (nonblocking cb) details]
               @ (if allReturn (nonblocking cb) details
                  then map (\<lambda>k. CompleterCall k
                              (completerArgs (requestArgs t rd p e b) verified details))
                         [0..<calledOf (completers h)
                                (completerArgs (requestArgs t rd p e b) verified details)]
                  else [])
        \<and> (r = Returned JUndefined
             \<longleftrightarrow> allReturn (nonblocking cb) details
                 \<and> allReturn (completers h)
                     (completerArgs (requestArgs t rd p e b) verified details))" .
  qed
qed

theorem pipeline_order_witness:
  "handleGenericEvent (reddit_postVote exampleRuntime) cancelling 5 postVoteRequest
     ''reddit'' ''postVote'' ''blocking'' startState
   = (Returned cancelDecision,
      \<lparr>processedRequestIds = {''4712''}, facebookTabId = JNum (- 1)\<rparr>,
      map (\<lambda>i. VerifierCall i (requestArgs 5 postVoteRequest ''reddit'' ''postVote'' ''blocking''))
          [0, 1, 2, 3]
      @ [ExtractorCall 0
           \<lparr>ea_requestDetails = postVoteRequest, ea_details = JObj [], ea_verified = JObj [],
            ea_platform = ''reddit'', ea_eventType = ''postVote'',
            ea_blockingType = ''blocking'', ea_eventTime = 5\<rparr>,
         BlockingCall postVoteDetails])
   \<and> blocking cancelling = [\<lambda>details. Returned cancelDecision]
   \<and> cancels cancelDecision = Inr True
   \<and> (\<exists>nv ne nb nn nc.
         [(0, 0), (0, 1), (0, 2), (0, 3), (1, 0), (2, 0)] = callShape nv ne nb nn nc
         \<and> stepCounts (reddit_postVote exampleRuntime) cancelling ''blocking'' nv ne nb nn nc)
   \<and> length (nonblocking cancelling) = 1
   \<and> runVerifiers (verifiers completing) 0 postVoteArgs JNull startState []
       = (Continue (JObj []), seen4712, postVoteVerifierCalls)
   \<and> recordTab ''reddit'' postVoteRequest seen4712 = Inr seen4712
   \<and> runExtractors (extractors completing) 0 postVoteArgs (JObj []) (JObj [])
         postVoteVerifierCalls
       = (Continue postVoteDetails, postVoteVerifierCalls @ postVoteExtractorCalls)
   \<and> blocking allowing = [\<lambda>details. Returned JUndefined]
   \<and> cancels JUndefined = Inr False
   \<and> length (nonblocking allowing) = 2 \<and> length (completers completing) = 1
   \<and> handleGenericEvent completing allowing 5 postVoteRequest ''reddit'' ''postVote''
         ''blocking'' startState
       = (Returned JUndefined, seen4712,
          postVoteVerifierCalls @ postVoteExtractorCalls
          @ [BlockingCall postVoteDetails,
             NonblockingCall 0 postVoteDetails, NonblockingCall 1 postVoteDetails,
             CompleterCall 0 (completerArgs postVoteArgs (JObj []) postVoteDetails)])
   \<and> postVoteVerifierCalls @ postVoteExtractorCalls
       @ [BlockingCall postVoteDetails,
          NonblockingCall 0 postVoteDetails, NonblockingCall 1 postVoteDetails,
          CompleterCall 0 (completerArgs postVoteArgs (JObj []) postVoteDetails)]
     = (postVoteVerifierCalls @ postVoteExtractorCalls) @ [BlockingCall postVoteDetails]
       @ map (\<lambda>k. NonblockingCall k postVoteDetails)
           [0..<calledOf (nonblocking allowing) postVoteDetails]
       @ map (\<lambda>k. CompleterCall k (completerArgs postVoteArgs (JObj []) postVoteDetails))
           [0..<calledOf (completers completing)
                  (completerArgs postVoteArgs (JObj []) postVoteDetails)]
   \<and> calledOf (nonblocking allowing) postVoteDetails = 2
   \<and> calledOf (completers completing) (completerArgs postVoteArgs (JObj []) postVoteDetails) = 1"
proof -
  note run = postVote_cancelled_run
  have b: "blocking cancelling = (\<lambda>details. Returned cancelDecision) # []"
    by (simp add: cancelling_def)
  have c: "cancels cancelDecision = Inr True"
    by (simp add: cancels_def cancelDecision_def hasProp_def)
  from pipeline_order [OF run]
  have "\<exists>nv ne nb nn nc.
      map callKind
        (map (\<lambda>i. VerifierCall i (requestArgs 5 postVoteRequest ''reddit'' ''postVote'' ''blocking''))
          [0, 1, 2, 3]
         @ [ExtractorCall 0
           \<lparr>ea_requestDetails = postVoteRequest, ea_details = JObj [], ea_verified = JObj [],
            ea_platform = ''reddit'', ea_eventType = ''postVote'',
            ea_blockingType = ''blocking'', ea_eventTime = 5\<rparr>,
         BlockingCall postVoteDetails]) = callShape nv ne nb nn nc
      \<and> stepCounts (reddit_postVote exampleRuntime) cancelling ''blocking'' nv ne nb nn nc"
    by blast
  then have shape: "\<exists>nv ne nb nn nc.
         [(0, 0), (0, 1), (0, 2), (0, 3), (1, 0), (2, 0)] = callShape nv ne nb nn nc
         \<and> stepCounts (reddit_postVote exampleRuntime) cancelling ''blocking'' nv ne nb nn nc"
    by simp
  have n: "length (nonblocking cancelling) = 1" by (simp add: cancelling_def)
  note run2 = postVote_allowed_run
  note v = postVote_allowed_verifiers [unfolded postVoteArgs_def]
  have tab: "recordTab ''reddit'' postVoteRequest seen4712 = Inr seen4712"
    by (simp add: recordTab_def)
  note x = postVote_allowed_extractors [unfolded postVoteArgs_def]
  have b2: "blocking allowing = (\<lambda>details. Returned JUndefined) # []"
    by (simp add: allowing_def)
  have c2: "cancels JUndefined = Inr False" by (simp add: cancels_def)
  have go: "''blocking'' = ''blocking'' \<longrightarrow>
      (\<exists>callback others decision. blocking allowing = callback # others
         \<and> callback postVoteDetails = Returned decision \<and> cancels decision = Inr False)"
    using b2 c2 by simp
  have called: "calledOf (nonblocking allowing) postVoteDetails = 2"
    "allReturn (nonblocking allowing) postVoteDetails"
    "calledOf (completers completing) (completerArgs postVoteArgs (JObj []) postVoteDetails) = 1"
    "length (nonblocking allowing) = 2" "length (completers completing) = 1"
    by (simp_all add: allowing_def completing_def allReturn_def)
  from pipeline_order [OF run2] v tab x go
  have "postVoteVerifierCalls @ postVoteExtractorCalls
       @ [BlockingCall postVoteDetails,
          NonblockingCall 0 postVoteDetails, NonblockingCall 1 postVoteDetails,
          CompleterCall 0 (completerArgs postVoteArgs (JObj []) postVoteDetails)]
     = (postVoteVerifierCalls @ postVoteExtractorCalls)
       @ (if ''blocking'' = ''blocking'' then [BlockingCall postVoteDetails] else [])
       @ map (\<lambda>k. NonblockingCall k postVoteDetails)
           [0..<calledOf (nonblocking allowing) postVoteDetails]
       @ (if allReturn (nonblocking allowing) postVoteDetails
          then map (\<lambda>k. CompleterCall k
                      (completerArgs (requestArgs 5 postVoteRequest ''reddit'' ''postVote''
                         ''blocking'') (JObj []) postVoteDetails))
                 [0..<calledOf (completers completing)
                        (completerArgs (requestArgs 5 postVoteRequest ''reddit'' ''postVote''
                           ''blocking'') (JObj []) postVoteDetails)]
          else [])"
    by blast
  with called(2) have suffix: "postVoteVerifierCalls @ postVoteExtractorCalls
       @ [BlockingCall postVoteDetails,
          NonblockingCall 0 postVoteDetails, NonblockingCall 1 postVoteDetails,
          CompleterCall 0 (completerArgs postVoteArgs (JObj []) postVoteDetails)]
     = (postVoteVerifierCalls @ postVoteExtractorCalls) @ [BlockingCall postVoteDetails]
       @ map (\<lambda>k. NonblockingCall k postVoteDetails)
           [0..<calledOf (nonblocking allowing) postVoteDetails]
       @ map (\<lambda>k. CompleterCall k (completerArgs postVoteArgs (JObj []) postVoteDetails))
           [0..<calledOf (completers completing)
                  (completerArgs postVoteArgs (JObj []) postVoteDetails)]"
    by (simp add: postVoteArgs_def)
  from run b c shape n postVote_allowed_verifiers tab postVote_allowed_extractors b2 c2
    called(4,5) run2 suffix called(1,3)
  show ?thesis by (intro conjI) simp_all
qed

subsection \<open>Rejection\<close>

lemma runVerifiers_append:
  assumes "runVerifiers pre i a v s tr = (Continue v0, s0, tr0)"
  shows "runVerifiers (pre @ rest) i a v s tr = runVerifiers rest (i + length pre) a v0 s0 tr0"
  using assms
proof (induction pre arbitrary: i v s tr)
  case Nil
  then show ?case by simp
next
  case (Cons f pre)
  obtain o1 s1 where f: "f a s = (o1, s1)" by (cases "f a s")
  with Cons.prems obtain x where x: "o1 = Returned x" "truthy x"
    by (cases o1) (auto split: if_splits)
  with Cons.prems f have "runVerifiers pre (Suc i) a x s1 (tr @ [VerifierCall i a]) = (Continue v0, s0, tr0)"
    by simp
  from Cons.IH [OF this] f x show ?case by simp
qed

lemma runExtractors_append:
  assumes "runExtractors pre i a verified d tr = (Continue d0, tr0)"
  shows "runExtractors (pre @ rest) i a verified d tr
       = runExtractors rest (i + length pre) a verified d0 tr0"
  using assms
proof (induction pre arbitrary: i d tr)
  case Nil
  then show ?case by simp
next
  case (Cons f pre)
  define ea where "ea = \<lparr>ea_requestDetails = va_requestDetails a, ea_details = d,
                ea_verified = verified, ea_platform = va_platform a,
                ea_eventType = va_eventType a, ea_blockingType = va_blockingType a,
                ea_eventTime = va_eventTime a\<rparr>"
  from Cons.prems obtain x where x: "f ea = Returned x" "truthy x"
    by (cases "f ea") (auto simp: ea_def Let_def split: if_splits)
  with Cons.prems have "runExtractors pre (Suc i) a verified x (tr @ [ExtractorCall i ea]) = (Continue d0, tr0)"
    by (simp add: ea_def Let_def)
  from Cons.IH [OF this] x show ?case by (simp add: ea_def Let_def)
qed

lemma verifier_rejects:
  assumes "verifiers h = pre @ f # rest"
    and "runVerifiers pre 0 (requestArgs t rd p e b) JNull s [] = (Continue v0, s0, tr0)"
    and "f (requestArgs t rd p e b) s0 = (Returned x, s1)" and "\<not> truthy x"
  shows "handleGenericEvent h cb t rd p e b s
       = (Returned (JObj []), s1, tr0 @ [VerifierCall (length pre) (requestArgs t rd p e b)])"
proof -
  have "runVerifiers (verifiers h) 0 (requestArgs t rd p e b) JNull s []
      = (Stop (Returned (JObj [])), s1, tr0 @ [VerifierCall (length pre) (requestArgs t rd p e b)])"
    using assms by (simp add: runVerifiers_append)
  then show ?thesis
    by (simp add: handleGenericEvent_def requestArgs_def)
qed

lemma extractor_rejects:
  assumes "runVerifiers (verifiers h) 0 (requestArgs t rd p e b) JNull s [] = (Continue verified, s1, tr1)"
    and "recordTab p rd s1 = Inr s2"
    and "extractors h = pre @ f # rest"
    and "runExtractors pre 0 (requestArgs t rd p e b) verified (JObj []) tr1 = (Continue d0, tr2)"
    and "f (extractorArgs (requestArgs t rd p e b) verified d0) = Returned x" and "\<not> truthy x"
  shows "handleGenericEvent h cb t rd p e b s
       = (Returned (JObj []), s2,
          tr2 @ [ExtractorCall (length pre) (extractorArgs (requestArgs t rd p e b) verified d0)])"
proof -
  have "runExtractors (extractors h) 0 (requestArgs t rd p e b) verified (JObj []) tr1
      = (Stop (Returned (JObj [])),
         tr2 @ [ExtractorCall (length pre) (extractorArgs (requestArgs t rd p e b) verified d0)])"
    using assms(3-6) by (simp add: runExtractors_append extractorArgs_def Let_def)
  with assms(1,2) show ?thesis
    by (simp add: handleGenericEvent_def requestArgs_def)
qed

lemma runVerifiers_stop_value:
  assumes "runVerifiers vs i a v s tr = (Stop (Returned x), s', tr')"
  shows "x = JObj []"
  using assms
proof (induction vs arbitrary: i v s tr)
  case Nil
  then show ?case by simp
next
  case (Cons f vs)
  obtain o1 s1 where f: "f a s = (o1, s1)" by (cases "f a s")
  show ?case
  proof (cases "\<exists>y. o1 = Returned y \<and> truthy y")
    case True
    then obtain y where "o1 = Returned y" "truthy y" by blast
    with Cons.prems f Cons.IH show ?thesis by simp
  next
    case False
    with Cons.prems f show ?thesis
      by (auto split: outcome.splits if_splits)
  qed
qed

lemma runExtractors_stop_value:
  assumes "runExtractors es i a verified d tr = (Stop (Returned x), tr')"
  shows "x = JObj []"
  using assms
proof (induction es arbitrary: i d tr)
  case Nil
  then show ?case by simp
next
  case (Cons f es)
  define ea where "ea = extractorArgs a verified d"
  show ?case
  proof (cases "\<exists>y. f ea = Returned y \<and> truthy y")
    case True
    then obtain y where "f ea = Returned y" "truthy y" by blast
    with Cons.prems Cons.IH show ?thesis by (simp add: ea_def extractorArgs_def Let_def)
  next
    case False
    with Cons.prems show ?thesis
      by (auto simp: ea_def extractorArgs_def Let_def split: outcome.splits if_splits)
  qed
qed

lemma deliver_value:
  assumes "deliver h cb a v d tr = (Returned x, tr')"
  shows "x = JUndefined"
  using assms by (auto simp: deliver_def split: prod.splits option.splits)

lemma cancel_from_listener:
  assumes "handleGenericEvent h cb t rd p e b s = (Returned x, s', tr)" and "hasProp ''cancel'' x"
  shows "b = ''blocking'' \<and> (\<exists>callback others d.
           blocking cb = callback # others \<and> callback d = Returned x \<and> BlockingCall d \<in> set tr)"
  using assms(1)
proof (cases rule: handleGenericEvent_cases)
  case verifier_stop
  from runVerifiers_stop_value [OF this] assms(2) show ?thesis by (simp add: hasProp_def)
next
  case (tab_throw verified err)
  then show ?thesis by simp
next
  case (extractor_stop verified s1 tr1)
  from runExtractors_stop_value [OF extractor_stop(3)] assms(2) show ?thesis
    by (simp add: hasProp_def)
next
  case (notified verified s1 tr1 details tr2)
  have u: "\<not> hasProp ''cancel'' JUndefined" by (simp add: hasProp_def)
  show ?thesis
  proof (cases "b = ''blocking''")
    case False
    with notified(4) have "deliver h cb (requestArgs t rd p e b) verified details tr2 = (Returned x, tr)"
      by (simp add: notify_def requestArgs_def)
    from deliver_value [OF this] assms(2) u show ?thesis by simp
  next
    case True
    show ?thesis
    proof (cases "blocking cb")
      case Nil
      with True notified(4) show ?thesis by (simp add: notify_def requestArgs_def)
    next
      case (Cons callback others)
      show ?thesis
      proof (cases "callback details")
        case (Returned y)
        show ?thesis
        proof (cases "cancels y")
          case (Inl err)
          with True Cons Returned notified(4) show ?thesis
            by (simp add: notify_def requestArgs_def)
        next
          case (Inr c)
          show ?thesis
          proof (cases c)
            case True
            with \<open>b = ''blocking''\<close> Cons Returned Inr notified(4)
            have "x = y" "tr = tr2 @ [BlockingCall details]"
              by (simp_all add: notify_def requestArgs_def)
            with \<open>b = ''blocking''\<close> Cons Returned show ?thesis by auto
          next
            case False
            with \<open>b = ''blocking''\<close> Cons Returned Inr notified(4)
            have "deliver h cb (requestArgs t rd p e b) verified details (tr2 @ [BlockingCall details])
                = (Returned x, tr)"
              by (simp add: notify_def requestArgs_def)
            from deliver_value [OF this] assms(2) u show ?thesis by simp
          qed
        qed
      next
        case (Thrown err)
        with True Cons notified(4) show ?thesis by (simp add: notify_def requestArgs_def)
      next
        case Pending
        with True Cons notified(4) show ?thesis by (simp add: notify_def requestArgs_def)
      qed
    qed
  qed
qed

text \<open>
  Claim C10. When a verifier returns a falsy value after the verifiers before it accepted,
  or an extractor does after all verifiers and the extractors before it accepted,
  \<^verbatim>\<open>handleGenericEvent\<close> returns an empty object, which has no \<^verbatim>\<open>cancel\<close> property, and calls
  nothing further. A returned value with a \<^verbatim>\<open>cancel\<close> property is the decision of the
  blocking listener, in blocking mode.
\<close>

theorem rejection_returns_empty:
  "(verifiers h = pre @ f # rest
      \<and> runVerifiers pre 0 (requestArgs t rd p e b) JNull s [] = (Continue v0, s0, tr0)
      \<and> f (requestArgs t rd p e b) s0 = (Returned x, s1) \<and> \<not> truthy x
    \<longrightarrow> handleGenericEvent h cb t rd p e b s
        = (Returned (JObj []), s1, tr0 @ [VerifierCall (length pre) (requestArgs t rd p e b)]))
   \<and> (runVerifiers (verifiers h) 0 (requestArgs t rd p e b) JNull s [] = (Continue verified, s2, tr1)
      \<and> recordTab p rd s2 = Inr s3
      \<and> extractors h = epre @ g # erest
      \<and> runExtractors epre 0 (requestArgs t rd p e b) verified (JObj []) tr1 = (Continue d0, tr2)
      \<and> g (extractorArgs (requestArgs t rd p e b) verified d0) = Returned y \<and> \<not> truthy y
    \<longrightarrow> handleGenericEvent h cb t rd p e b s
        = (Returned (JObj []), s3,
           tr2 @ [ExtractorCall (length epre) (extractorArgs (requestArgs t rd p e b) verified d0)]))
   \<and> \<not> hasProp ''cancel'' (JObj [])
   \<and> (handleGenericEvent h cb t rd p e b s = (Returned z, s', tr) \<and> hasProp ''cancel'' z
    \<longrightarrow> b = ''blocking''
        \<and> (\<exists>callback others d. blocking cb = callback # others \<and> callback d = Returned z
              \<and> BlockingCall d \<in> set tr))"
proof (intro conjI impI)
  assume "verifiers h = pre @ f # rest
      \<and> runVerifiers pre 0 (requestArgs t rd p e b) JNull s [] = (Continue v0, s0, tr0)
      \<and> f (requestArgs t rd p e b) s0 = (Returned x, s1) \<and> \<not> truthy x"
  then show "handleGenericEvent h cb t rd p e b s
        = (Returned (JObj []), s1, tr0 @ [VerifierCall (length pre) (requestArgs t rd p e b)])"
    using verifier_rejects by blast
next
  assume "runVerifiers (verifiers h) 0 (requestArgs t rd p e b) JNull s [] = (Continue verified, s2, tr1)
      \<and> recordTab p rd s2 = Inr s3
      \<and> extractors h = epre @ g # erest
      \<and> runExtractors epre 0 (requestArgs t rd p e b) verified (JObj []) tr1 = (Continue d0, tr2)
      \<and> g (extractorArgs (requestArgs t rd p e b) verified d0) = Returned y \<and> \<not> truthy y"
  then show "handleGenericEvent h cb t rd p e b s
        = (Returned (JObj []), s3,
           tr2 @ [ExtractorCall (length epre) (extractorArgs (requestArgs t rd p e b) verified d0)])"
    using extractor_rejects by blast
next
  show "\<not> hasProp ''cancel'' (JObj [])" by (simp add: hasProp_def)
next
  assume a: "handleGenericEvent h cb t rd p e b s = (Returned z, s', tr) \<and> hasProp ''cancel'' z"
  with cancel_from_listener [of h cb t rd p e b s z s' tr]
  show "b = ''blocking''" by blast
  from a cancel_from_listener [of h cb t rd p e b s z s' tr]
  show "\<exists>callback others d. blocking cb = callback # others \<and> callback d = Returned z
              \<and> BlockingCall d \<in> set tr" by blast
qed

lemmas facebook_defs = verifyFacebookReshare_def extractFacebookReshare_def
  verifyFacebookReact_def extractFacebookReact_def reactionTypeOf_def
  facebook_reshare_def facebook_react_def includesJS.simps getMember_def

theorem rejection_returns_empty_witness:
  "handleGenericEvent (reddit_postVote exampleRuntime) oneListener 5 commentVoteRequest
     ''reddit'' ''postVote'' ''nonblocking'' startState
   = (Returned (JObj []),
      \<lparr>processedRequestIds = {''4711''}, facebookTabId = JNum (- 1)\<rparr>,
      map (\<lambda>i. VerifierCall i
                 (requestArgs 5 commentVoteRequest ''reddit'' ''postVote'' ''nonblocking''))
          [0, 1, 2] @
      [VerifierCall 3 (requestArgs 5 commentVoteRequest ''reddit'' ''postVote'' ''nonblocking'')])
   \<and> handleGenericEvent (facebook_reshare exampleRuntime) oneListener 5 reshareRequest
        ''facebook'' ''reshare'' ''nonblocking'' startState
     = (Returned (JObj []),
        \<lparr>processedRequestIds = {''2002''}, facebookTabId = JNum 7\<rparr>,
        map (\<lambda>i. VerifierCall i
                   (requestArgs 5 reshareRequest ''facebook'' ''reshare'' ''nonblocking''))
            [0, 1, 2, 3] @
        [ExtractorCall 0
           (extractorArgs (requestArgs 5 reshareRequest ''facebook'' ''reshare'' ''nonblocking'')
              (JObj []) (JObj []))])
   \<and> \<not> hasProp ''cancel'' (JObj [])
   \<and> hasProp ''cancel'' cancelDecision
   \<and> (\<exists>callback others d. blocking cancelling = callback # others
         \<and> callback d = Returned cancelDecision
         \<and> BlockingCall d \<in> set
              (map (\<lambda>i. VerifierCall i
                    (requestArgs 5 postVoteRequest ''reddit'' ''postVote'' ''blocking''))
                 [0, 1, 2, 3]
               @ [ExtractorCall 0
                    \<lparr>ea_requestDetails = postVoteRequest, ea_details = JObj [],
                     ea_verified = JObj [], ea_platform = ''reddit'',
                     ea_eventType = ''postVote'', ea_blockingType = ''blocking'',
                     ea_eventTime = 5\<rparr>,
                  BlockingCall postVoteDetails]))"
proof -
  let ?a = "requestArgs 5 commentVoteRequest ''reddit'' ''postVote'' ''nonblocking''"
  let ?s1 = "\<lparr>processedRequestIds = {''4711''}, facebookTabId = JNum (- 1)\<rparr>"
  have v1: "verifiers (reddit_postVote exampleRuntime)
      = [verifyPostReq exampleRuntime, verifyReadableFormData, verifyNewRequest]
        @ verifyRedditPostVote exampleRuntime # []"
    by (simp add: reddit_postVote_def)
  have v2: "runVerifiers [verifyPostReq exampleRuntime, verifyReadableFormData, verifyNewRequest]
        0 ?a JNull startState []
      = (Continue (JObj []), ?s1, map (\<lambda>i. VerifierCall i ?a) [0, 1, 2])"
    by (simp add: run_defs requestArgs_def commentVoteRequest_def)
  have v3: "verifyRedditPostVote exampleRuntime ?a ?s1 = (Returned JNull, ?s1)"
    by (simp add: run_defs requestArgs_def commentVoteRequest_def)
  have first: "handleGenericEvent (reddit_postVote exampleRuntime) oneListener 5 commentVoteRequest
     ''reddit'' ''postVote'' ''nonblocking'' startState
   = (Returned (JObj []), ?s1, map (\<lambda>i. VerifierCall i ?a) [0, 1, 2] @ [VerifierCall 3 ?a])"
    using rejection_returns_empty [where h = "reddit_postVote exampleRuntime"
        and pre = "[verifyPostReq exampleRuntime, verifyReadableFormData, verifyNewRequest]"
        and f = "verifyRedditPostVote exampleRuntime" and rest = "[]" and t = 5
        and rd = commentVoteRequest and p = "''reddit''" and e = "''postVote''"
        and b = "''nonblocking''" and s = startState and ?v0.0 = "JObj []" and ?s0.0 = ?s1
        and ?tr0.0 = "map (\<lambda>i. VerifierCall i ?a) [0, 1, 2]" and x = JNull and ?s1.0 = ?s1
        and cb = oneListener]
      v1 v2 v3
    by simp
  let ?b = "requestArgs 5 reshareRequest ''facebook'' ''reshare'' ''nonblocking''"
  let ?s2 = "\<lparr>processedRequestIds = {''2002''}, facebookTabId = JNum (- 1)\<rparr>"
  let ?s3 = "\<lparr>processedRequestIds = {''2002''}, facebookTabId = JNum 7\<rparr>"
  have e1: "runVerifiers (verifiers (facebook_reshare exampleRuntime)) 0 ?b JNull startState []
      = (Continue (JObj []), ?s2, map (\<lambda>i. VerifierCall i ?b) [0, 1, 2, 3])"
    by (simp add: run_defs facebook_defs requestArgs_def reshareRequest_def)
  have e2: "recordTab ''facebook'' reshareRequest ?s2 = Inr ?s3"
    by (simp add: recordTab_def reshareRequest_def)
  have e3: "extractors (facebook_reshare exampleRuntime)
      = [] @ extractFacebookReshare exampleRuntime # []"
    by (simp add: facebook_reshare_def)
  have e4: "runExtractors [] 0 ?b (JObj []) (JObj []) (map (\<lambda>i. VerifierCall i ?b) [0, 1, 2, 3])
      = (Continue (JObj []), map (\<lambda>i. VerifierCall i ?b) [0, 1, 2, 3])"
    by simp
  have e5: "extractFacebookReshare exampleRuntime (extractorArgs ?b (JObj []) (JObj []))
      = Returned JUndefined"
    by (simp add: run_defs facebook_defs extractorArgs_def requestArgs_def reshareRequest_def)
  have second: "handleGenericEvent (facebook_reshare exampleRuntime) oneListener 5 reshareRequest
        ''facebook'' ''reshare'' ''nonblocking'' startState
     = (Returned (JObj []), ?s3,
        map (\<lambda>i. VerifierCall i ?b) [0, 1, 2, 3] @
        [ExtractorCall 0 (extractorArgs ?b (JObj []) (JObj []))])"
    using rejection_returns_empty [where h = "facebook_reshare exampleRuntime"
        and epre = "[]" and g = "extractFacebookReshare exampleRuntime" and erest = "[]"
        and t = 5 and rd = reshareRequest and p = "''facebook''" and e = "''reshare''"
        and b = "''nonblocking''" and s = startState and verified = "JObj []" and ?s2.0 = ?s2
        and ?s3.0 = ?s3 and ?tr1.0 = "map (\<lambda>i. VerifierCall i ?b) [0, 1, 2, 3]"
        and ?d0.0 = "JObj []" and ?tr2.0 = "map (\<lambda>i. VerifierCall i ?b) [0, 1, 2, 3]"
        and y = JUndefined and cb = oneListener]
      e1 e2 e3 e4 e5
    by simp
  have c: "hasProp ''cancel'' cancelDecision"
    by (simp add: hasProp_def cancelDecision_def)
  note third = rejection_returns_empty [where h = "reddit_postVote exampleRuntime"
      and cb = cancelling and t = 5 and rd = postVoteRequest and p = "''reddit''"
      and e = "''postVote''" and b = "''blocking''" and s = startState and z = cancelDecision,
      THEN conjunct2, THEN conjunct2, THEN conjunct2, rule_format,
      OF conjI [OF postVote_cancelled_run c]]
  have n: "\<not> hasProp ''cancel'' (JObj [])" by (simp add: hasProp_def)
  from first second n c third show ?thesis by (intro conjI) simp_all
qed

lemma react_run:
  "handleGenericEvent (facebook_react exampleRuntime) oneListener 5 reactRequest
     ''facebook'' ''react'' ''nonblocking'' startState
   = (Returned JUndefined,
      \<lparr>processedRequestIds = {''1001''}, facebookTabId = JNum 7\<rparr>,
      map (\<lambda>i. VerifierCall i (requestArgs 5 reactRequest ''facebook'' ''react'' ''nonblocking''))
          [0, 1, 2, 3]
      @ [ExtractorCall 0
           (extractorArgs (requestArgs 5 reactRequest ''facebook'' ''react'' ''nonblocking'')
              reactVerified (JObj [])),
         NonblockingCall 0 reactDetails])"
  by code_simp

subsection \<open>What verifiers and extractors are handed\<close>

lemma runVerifiers_last:
  assumes "runVerifiers vs i a v s tr = (Continue x, s', tr')"
  shows "(vs = [] \<and> x = v) \<or> (vs \<noteq> [] \<and> (\<exists>s0 s1. last vs a s0 = (Returned x, s1)))"
  using assms
proof (induction vs arbitrary: i v s tr)
  case Nil
  then show ?case by simp
next
  case (Cons f vs)
  obtain o1 s1 where f: "f a s = (o1, s1)" by (cases "f a s")
  with Cons.prems obtain y where y: "o1 = Returned y" "truthy y"
    by (cases o1) (auto split: if_splits)
  with Cons.prems f have rest: "runVerifiers vs (Suc i) a y s1 (tr @ [VerifierCall i a]) = (Continue x, s', tr')"
    by simp
  show ?case
  proof (cases vs)
    case Nil
    with rest have "x = y" by simp
    with Nil f y show ?thesis by auto
  next
    case (Cons g gs)
    with Cons.IH [OF rest] show ?thesis by auto
  qed
qed

lemma runExtractors_handed:
  assumes "runExtractors es i a verified d tr = (p, tr')"
    and "ExtractorCall j ea \<in> set tr'"
  shows "ExtractorCall j ea \<in> set tr
       \<or> (ea_verified ea = verified \<and> ea_requestDetails ea = va_requestDetails a)"
  using assms
proof (induction es arbitrary: i d tr)
  case Nil
  then show ?case by simp
next
  case (Cons f es)
  define ea0 where "ea0 = extractorArgs a verified d"
  have h: "ea_verified ea0 = verified \<and> ea_requestDetails ea0 = va_requestDetails a"
    by (simp add: ea0_def extractorArgs_def)
  show ?case
  proof (cases "\<exists>x. f ea0 = Returned x \<and> truthy x")
    case True
    then obtain x where x: "f ea0 = Returned x" "truthy x" by blast
    with Cons.prems(1) have "runExtractors es (Suc i) a verified x (tr @ [ExtractorCall i ea0]) = (p, tr')"
      by (simp add: ea0_def extractorArgs_def Let_def)
    from Cons.IH [OF this Cons.prems(2)] h show ?thesis by auto
  next
    case False
    with Cons.prems(1) have "tr' = tr @ [ExtractorCall i ea0]"
      by (auto simp: ea0_def extractorArgs_def Let_def split: outcome.splits if_splits)
    with Cons.prems(2) h show ?thesis by auto
  qed
qed

lemma deliver_later_calls:
  assumes "deliver h cb a v d tr = (r, tr')"
  shows "\<exists>more. tr' = tr @ more \<and> (\<forall>c \<in> set more. 3 \<le> fst (callKind c))"
proof -
  obtain r1 tr1 where l: "runListeners (nonblocking cb) 0 d tr = (r1, tr1)"
    by (cases "runListeners (nonblocking cb) 0 d tr")
  from runListeners_calls [OF l] obtain nn where
    nn: "tr1 = tr @ map (\<lambda>k. NonblockingCall (0 + k) d) [0..<nn]" by blast
  show ?thesis
  proof (cases r1)
    case (Some e)
    with assms l nn show ?thesis by (auto simp: deliver_def)
  next
    case None
    define ca where "ca = \<lparr>ca_requestDetails = va_requestDetails a, ca_verified = v,
                   ca_details = d, ca_platform = va_platform a,
                   ca_eventType = va_eventType a, ca_blockingType = va_blockingType a\<rparr>"
    obtain r2 tr2 where c: "runCompleters (completers h) 0 ca tr1 = (r2, tr2)"
      by (cases "runCompleters (completers h) 0 ca tr1")
    from runCompleters_calls [OF c] obtain nc where
      nc: "tr2 = tr1 @ map (\<lambda>k. CompleterCall (0 + k) ca) [0..<nc]" by blast
    from assms l c None have "tr' = tr2"
      by (auto simp: deliver_def ca_def split: option.splits)
    with nn nc show ?thesis by auto
  qed
qed

lemma notify_later_calls:
  assumes "notify h cb a v d tr = (r, tr')"
  shows "\<exists>more. tr' = tr @ more \<and> (\<forall>c \<in> set more. 2 \<le> fst (callKind c))"
proof -
  have "tr' = tr \<or> tr' = tr @ [BlockingCall d] \<or> deliver h cb a v d tr = (r, tr')
      \<or> deliver h cb a v d (tr @ [BlockingCall d]) = (r, tr')"
    using assms
    by (auto simp: notify_def split: if_splits list.splits outcome.splits sum.splits bool.splits)
  then consider "tr' = tr" | "tr' = tr @ [BlockingCall d]" | "deliver h cb a v d tr = (r, tr')"
    | "deliver h cb a v d (tr @ [BlockingCall d]) = (r, tr')" by blast
  then show ?thesis
  proof cases
    case 1
    then show ?thesis by simp
  next
    case 2
    then show ?thesis by simp
  next
    case 3
    from deliver_later_calls [OF this] show ?thesis by fastforce
  next
    case 4
    from deliver_later_calls [OF this] obtain more where
      "tr' = (tr @ [BlockingCall d]) @ more" "\<forall>c \<in> set more. 3 \<le> fst (callKind c)" by blast
    then show ?thesis
      by (intro exI [of _ "BlockingCall d # more"]) auto
  qed
qed

text \<open>
  Claim C4, as amended. Every verifier of a run is called with the same argument object,
  made of the request, the platform, the event type, the blocking type and the event time:
  nothing an earlier verifier returned is passed on to it. Every extractor is called with
  the request and, as \<^verbatim>\<open>verified\<close>, the value with which the verifier loop ended, which is
  the result of the last verifier of the list (null for an empty list).
\<close>

theorem verified_is_last_result:
  assumes "handleGenericEvent h cb t rd p e b s = (r, s', tr)"
  shows "(\<forall>i args. VerifierCall i args \<in> set tr \<longrightarrow> args = requestArgs t rd p e b)
       \<and> (\<forall>i ea. ExtractorCall i ea \<in> set tr \<longrightarrow>
             ea_requestDetails ea = rd
             \<and> (\<exists>s1 tr1. runVerifiers (verifiers h) 0 (requestArgs t rd p e b) JNull s []
                          = (Continue (ea_verified ea), s1, tr1))
             \<and> (verifiers h = [] \<longrightarrow> ea_verified ea = JNull)
             \<and> (verifiers h \<noteq> [] \<longrightarrow>
                  (\<exists>s0 s1. last (verifiers h) (requestArgs t rd p e b) s0
                            = (Returned (ea_verified ea), s1))))"
proof -
  let ?a = "requestArgs t rd p e b"
  have rd: "va_requestDetails ?a = rd" by (simp add: requestArgs_def)
  from assms show ?thesis
  proof (cases rule: handleGenericEvent_cases)
    case verifier_stop
    from runVerifiers_calls [OF this] show ?thesis by auto
  next
    case (tab_throw verified err)
    from runVerifiers_calls [OF tab_throw(1)] show ?thesis by auto
  next
    case (extractor_stop verified s1 tr1)
    from runVerifiers_calls [OF extractor_stop(1)] obtain n where
      t1: "tr1 = [] @ map (\<lambda>k. VerifierCall (0 + k) ?a) [0..<n]" by blast
    from runExtractors_calls [OF extractor_stop(3)] obtain calls where c: "tr = tr1 @ calls"
      "\<forall>c \<in> set calls. \<exists>j ea. c = ExtractorCall j ea \<and> ea_verified ea = verified" by blast
    have v: "\<forall>i args. VerifierCall i args \<in> set tr \<longrightarrow> args = ?a"
      using t1 c by auto
    have x: "ea_verified ea = verified \<and> ea_requestDetails ea = rd"
      if "ExtractorCall i ea \<in> set tr" for i ea
      using runExtractors_handed [OF extractor_stop(3) that] t1 rd by auto
    from runVerifiers_last [OF extractor_stop(1)] extractor_stop(1) v x show ?thesis
      by (intro conjI allI impI) auto
  next
    case (notified verified s1 tr1 details tr2)
    from runVerifiers_calls [OF notified(1)] obtain n where
      t1: "tr1 = [] @ map (\<lambda>k. VerifierCall (0 + k) ?a) [0..<n]" by blast
    from runExtractors_calls [OF notified(3)] obtain calls where c: "tr2 = tr1 @ calls"
      "\<forall>c \<in> set calls. \<exists>j ea. c = ExtractorCall j ea \<and> ea_verified ea = verified" by blast
    from notify_later_calls [OF notified(4)] obtain more where
      m: "tr = tr2 @ more" "\<forall>c \<in> set more. 2 \<le> fst (callKind c)" by blast
    have v: "\<forall>i args. VerifierCall i args \<in> set tr \<longrightarrow> args = ?a"
      using t1 c m by auto
    have x: "ea_verified ea = verified \<and> ea_requestDetails ea = rd"
      if "ExtractorCall i ea \<in> set tr" for i ea
    proof -
      from that m have "ExtractorCall i ea \<in> set tr2" by auto
      from runExtractors_handed [OF notified(3) this] t1 rd show ?thesis by auto
    qed
    from runVerifiers_last [OF notified(1)] notified(1) v x show ?thesis
      by (intro conjI allI impI) auto
  qed
qed

theorem verified_is_last_result_witness:
  "handleGenericEvent (facebook_react exampleRuntime) oneListener 5 reactRequest
     ''facebook'' ''react'' ''nonblocking'' startState
   = (Returned JUndefined,
      \<lparr>processedRequestIds = {''1001''}, facebookTabId = JNum 7\<rparr>,
      map (\<lambda>i. VerifierCall i (requestArgs 5 reactRequest ''facebook'' ''react'' ''nonblocking''))
          [0, 1, 2, 3]
      @ [ExtractorCall 0
           (extractorArgs (requestArgs 5 reactRequest ''facebook'' ''react'' ''nonblocking'')
              reactVerified (JObj [])),
         NonblockingCall 0 reactDetails])
   \<and> verifiers (facebook_react exampleRuntime) \<noteq> []
   \<and> (\<exists>s0 s1. last (verifiers (facebook_react exampleRuntime))
                 (requestArgs 5 reactRequest ''facebook'' ''react'' ''nonblocking'') s0
               = (Returned reactVerified, s1))"
proof -
  let ?a = "requestArgs 5 reactRequest ''facebook'' ''react'' ''nonblocking''"
  have n: "verifiers (facebook_react exampleRuntime) \<noteq> []"
    by (simp add: facebook_react_def)
  have m: "ExtractorCall 0 (extractorArgs ?a reactVerified (JObj []))
      \<in> set (map (\<lambda>i. VerifierCall i ?a) [0, 1, 2, 3]
             @ [ExtractorCall 0 (extractorArgs ?a reactVerified (JObj [])),
                NonblockingCall 0 reactDetails])"
    by simp
  have v: "ea_verified (extractorArgs ?a reactVerified (JObj [])) = reactVerified"
    by (simp add: extractorArgs_def)
  from verified_is_last_result [OF react_run, THEN conjunct2, rule_format, OF m] n v
  have "\<exists>s0 s1. last (verifiers (facebook_react exampleRuntime)) ?a s0
               = (Returned reactVerified, s1)"
    by simp
  with react_run n show ?thesis by (intro conjI)
qed

text \<open>
  The claim as stated fails: in the run of the reshare handler on a share of the old
  Facebook, the third verifier returns the shared post and its owner, and the extractor is
  handed the empty object that the last verifier returned.
\<close>

theorem combined_context_counterexample:
  "fst (verifyFacebookReshare exampleRuntime
          (requestArgs 5 reshareRequest ''facebook'' ''reshare'' ''nonblocking'') startState)
     = Returned (JObj [(''sharedFromPostId'', JStr ''111''), (''ownerId'', JStr ''222'')])
   \<and> verifiers (facebook_reshare exampleRuntime) ! 2 = verifyFacebookReshare exampleRuntime
   \<and> snd (snd (handleGenericEvent (facebook_reshare exampleRuntime) oneListener 5 reshareRequest
        ''facebook'' ''reshare'' ''nonblocking'' startState))
     = map (\<lambda>i. VerifierCall i
                  (requestArgs 5 reshareRequest ''facebook'' ''reshare'' ''nonblocking''))
           [0, 1, 2, 3] @
       [ExtractorCall 0
          (extractorArgs (requestArgs 5 reshareRequest ''facebook'' ''reshare'' ''nonblocking'')
             (JObj []) (JObj []))]
   \<and> ea_verified
        (extractorArgs (requestArgs 5 reshareRequest ''facebook'' ''reshare'' ''nonblocking'')
           (JObj []) (JObj [])) = JObj []
   \<and> \<not> hasProp ''sharedFromPostId'' (JObj [])"
proof -
  have a: "fst (verifyFacebookReshare exampleRuntime
          (requestArgs 5 reshareRequest ''facebook'' ''reshare'' ''nonblocking'') startState)
     = Returned (JObj [(''sharedFromPostId'', JStr ''111''), (''ownerId'', JStr ''222'')])"
    by code_simp
  have b: "verifiers (facebook_reshare exampleRuntime) ! 2 = verifyFacebookReshare exampleRuntime"
    by (simp add: facebook_reshare_def)
  have c: "snd (snd (handleGenericEvent (facebook_reshare exampleRuntime) oneListener 5 reshareRequest
        ''facebook'' ''reshare'' ''nonblocking'' startState))
     = map (\<lambda>i. VerifierCall i
                  (requestArgs 5 reshareRequest ''facebook'' ''reshare'' ''nonblocking''))
           [0, 1, 2, 3] @
       [ExtractorCall 0
          (extractorArgs (requestArgs 5 reshareRequest ''facebook'' ''reshare'' ''nonblocking'')
             (JObj []) (JObj []))]"
    by code_simp
  have d: "ea_verified
        (extractorArgs (requestArgs 5 reshareRequest ''facebook'' ''reshare'' ''nonblocking'')
           (JObj []) (JObj [])) = JObj []"
    by (simp add: extractorArgs_def)
  have e: "\<not> hasProp ''sharedFromPostId'' (JObj [])" by (simp add: hasProp_def)
  from a b c d e show ?thesis by (intro conjI)
qed

subsection \<open>Deduplication\<close>

lemma pureVerifier_state: "snd (pureVerifier g a s) = s"
  by (simp add: pureVerifier_def split: sum.splits)

lemma verifyNewRequest_grows:
  assumes "verifyNewRequest a s = (v, s')"
  shows "processedRequestIds s \<subseteq> processedRequestIds s'"
  using assms by (auto simp: verifyNewRequest_def split: sum.splits if_splits)

lemma verifyNewRequest_marks:
  assumes "verifyNewRequest a s = (Returned x, s')" and "truthy x"
    and "getProp (va_requestDetails a) ''requestId'' = Inr rid"
  shows "toStringJS rid \<in> processedRequestIds s'"
  using assms by (auto simp: verifyNewRequest_def split: sum.splits if_splits)

lemma verifyNewRequest_seen:
  assumes "getProp (va_requestDetails a) ''requestId'' = Inr rid"
    and "toStringJS rid \<in> processedRequestIds s"
  shows "verifyNewRequest a s = (Returned JNull, s)"
  using assms by (simp add: verifyNewRequest_def)

lemma runVerifiers_ids:
  assumes "\<forall>f \<in> set vs. f = verifyNewRequest \<or> (\<forall>a s. snd (f a s) = s)"
    and "runVerifiers vs i a v s tr = (p, s', tr')"
  shows "processedRequestIds s \<subseteq> processedRequestIds s'"
  using assms
proof (induction vs arbitrary: i v s tr)
  case Nil
  then show ?case by simp
next
  case (Cons f vs)
  obtain o1 s1 where f: "f a s = (o1, s1)" by (cases "f a s")
  have step: "processedRequestIds s \<subseteq> processedRequestIds s1"
  proof (cases "f = verifyNewRequest")
    case True
    with f show ?thesis using verifyNewRequest_grows by blast
  next
    case False
    with Cons.prems(1) have "snd (f a s) = s" by simp
    with f show ?thesis by simp
  qed
  show ?case
  proof (cases "\<exists>x. o1 = Returned x \<and> truthy x")
    case True
    then obtain x where x: "o1 = Returned x" "truthy x" by blast
    with Cons.prems f have "runVerifiers vs (Suc i) a x s1 (tr @ [VerifierCall i a]) = (p, s', tr')"
      by simp
    from Cons.IH [OF _ this] Cons.prems(1) step show ?thesis by auto
  next
    case False
    with Cons.prems(2) f have "s' = s1"
      by (auto split: outcome.splits if_splits)
    with step show ?thesis by simp
  qed
qed

lemma runVerifiers_marks:
  assumes "\<forall>f \<in> set vs. f = verifyNewRequest \<or> (\<forall>a s. snd (f a s) = s)"
    and "verifyNewRequest \<in> set vs"
    and "getProp (va_requestDetails a) ''requestId'' = Inr rid"
    and "runVerifiers vs i a v s tr = (Continue x, s', tr')"
  shows "toStringJS rid \<in> processedRequestIds s'"
  using assms
proof (induction vs arbitrary: i v s tr)
  case Nil
  then show ?case by simp
next
  case (Cons f vs)
  obtain o1 s1 where f: "f a s = (o1, s1)" by (cases "f a s")
  with Cons.prems(4) obtain y where y: "o1 = Returned y" "truthy y"
    by (cases o1) (auto split: if_splits)
  with Cons.prems(4) f have rest: "runVerifiers vs (Suc i) a y s1 (tr @ [VerifierCall i a]) = (Continue x, s', tr')"
    by simp
  have pure: "\<forall>f \<in> set vs. f = verifyNewRequest \<or> (\<forall>a s. snd (f a s) = s)"
    using Cons.prems(1) by simp
  show ?case
  proof (cases "f = verifyNewRequest")
    case True
    with f y Cons.prems(3) have "toStringJS rid \<in> processedRequestIds s1"
      using verifyNewRequest_marks by blast
    with runVerifiers_ids [OF pure rest] show ?thesis by blast
  next
    case False
    with Cons.prems(2) have "verifyNewRequest \<in> set vs" by auto
    from Cons.IH [OF pure this Cons.prems(3) rest] show ?thesis .
  qed
qed

lemma runVerifiers_seen:
  assumes "\<forall>f \<in> set vs. f = verifyNewRequest \<or> (\<forall>a s. snd (f a s) = s)"
    and "verifyNewRequest \<in> set vs"
    and "getProp (va_requestDetails a) ''requestId'' = Inr rid"
    and "toStringJS rid \<in> processedRequestIds s"
    and "runVerifiers vs i a v s tr = (p, s', tr')"
  shows "\<forall>x. p \<noteq> Continue x"
  using assms
proof (induction vs arbitrary: i v s tr)
  case Nil
  then show ?case by simp
next
  case (Cons f vs)
  obtain o1 s1 where f: "f a s = (o1, s1)" by (cases "f a s")
  show ?case
  proof (cases "f = verifyNewRequest")
    case True
    with f verifyNewRequest_seen [OF Cons.prems(3,4)] have "o1 = Returned JNull" by simp
    with Cons.prems(5) f show ?thesis by auto
  next
    case False
    with Cons.prems(1) have "snd (f a s) = s" by simp
    with f have s1: "s1 = s" by simp
    from False Cons.prems(2) have mem: "verifyNewRequest \<in> set vs" by auto
    have pure: "\<forall>f \<in> set vs. f = verifyNewRequest \<or> (\<forall>a s. snd (f a s) = s)"
      using Cons.prems(1) by simp
    show ?thesis
    proof (cases "\<exists>y. o1 = Returned y \<and> truthy y")
      case True
      then obtain y where y: "o1 = Returned y" "truthy y" by blast
      with Cons.prems(5) f have "runVerifiers vs (Suc i) a y s1 (tr @ [VerifierCall i a]) = (p, s', tr')"
        by simp
      from Cons.IH [OF pure mem Cons.prems(3) _ this] Cons.prems(4) s1 show ?thesis by simp
    next
      case False
      with Cons.prems(5) f show ?thesis
        by (auto split: outcome.splits if_splits)
    qed
  qed
qed

lemma recordTab_ids:
  "recordTab p rd s = Inr s' \<Longrightarrow> processedRequestIds s' = processedRequestIds s"
  by (auto simp: recordTab_def split: if_splits sum.splits)

lemma delivered_kinds:
  "delivered tr \<longleftrightarrow> (\<exists>k \<in> set (map callKind tr). fst k = 2 \<or> fst k = 3)"
  by (auto simp: delivered_def list_ex_iff)

lemma verifier_calls_not_delivered:
  "\<not> delivered ([] @ map (\<lambda>k. VerifierCall (0 + k) a) [0..<n])"
  by (auto simp: delivered_def list_ex_iff)

text \<open>What a run does to the processed ids, and what a run that delivers has done.\<close>

lemma handleGenericEvent_ids:
  assumes "\<forall>f \<in> set (verifiers h). f = verifyNewRequest \<or> (\<forall>a s. snd (f a s) = s)"
    and "handleGenericEvent h cb t rd p e b s = (r, s', tr)"
  shows "processedRequestIds s \<subseteq> processedRequestIds s'"
  using assms(2)
proof (cases rule: handleGenericEvent_cases)
  case verifier_stop
  from runVerifiers_ids [OF assms(1) this] show ?thesis .
next
  case (tab_throw verified err)
  from runVerifiers_ids [OF assms(1) tab_throw(1)] show ?thesis .
next
  case (extractor_stop verified s1 tr1)
  from runVerifiers_ids [OF assms(1) extractor_stop(1)] recordTab_ids [OF extractor_stop(2)]
  show ?thesis by simp
next
  case (notified verified s1 tr1 details tr2)
  from runVerifiers_ids [OF assms(1) notified(1)] recordTab_ids [OF notified(2)]
  show ?thesis by simp
qed

lemma delivered_passed:
  assumes "handleGenericEvent h cb t rd p e b s = (r, s', tr)" and "delivered tr"
  shows "\<exists>verified s1 tr1.
           runVerifiers (verifiers h) 0 (requestArgs t rd p e b) JNull s [] = (Continue verified, s1, tr1)
           \<and> processedRequestIds s' = processedRequestIds s1"
  using assms(1)
proof (cases rule: handleGenericEvent_cases)
  case verifier_stop
  from runVerifiers_calls [OF this] assms(2) verifier_calls_not_delivered show ?thesis by metis
next
  case (tab_throw verified err)
  from runVerifiers_calls [OF tab_throw(1)] assms(2) verifier_calls_not_delivered
  show ?thesis by metis
next
  case (extractor_stop verified s1 tr1)
  with recordTab_ids show ?thesis by blast
next
  case (notified verified s1 tr1 details tr2)
  with recordTab_ids show ?thesis by blast
qed

lemma not_passed_stops:
  assumes "handleGenericEvent h cb t rd p e b s = (r, s', tr)"
    and "\<forall>x s1 tr1. runVerifiers (verifiers h) 0 (requestArgs t rd p e b) JNull s [] \<noteq> (Continue x, s1, tr1)"
  shows "(\<forall>x. r = Returned x \<longrightarrow> x = JObj []) \<and> list_all (\<lambda>c. fst (callKind c) = 0) tr"
  using assms(1)
proof (cases rule: handleGenericEvent_cases)
  case verifier_stop
  from runVerifiers_calls [OF this] obtain n where
    "tr = [] @ map (\<lambda>k. VerifierCall (0 + k) (requestArgs t rd p e b)) [0..<n]" by blast
  then have "list_all (\<lambda>c. fst (callKind c) = 0) tr" by (auto simp: list_all_iff)
  moreover have "\<forall>x. r = Returned x \<longrightarrow> x = JObj []"
    using runVerifiers_stop_value verifier_stop by blast
  ultimately show ?thesis by simp
next
  case (tab_throw verified err)
  with assms(2) show ?thesis by blast
next
  case (extractor_stop verified s1 tr1)
  with assms(2) show ?thesis by blast
next
  case (notified verified s1 tr1 details tr2)
  with assms(2) show ?thesis by blast
qed

lemma getProp_defined:
  assumes "getProp v p = Inr x"
  shows "\<exists>y. getProp v q = Inr y"
  using assms by (cases v) simp_all

lemma verifyNewRequest_records:
  assumes "getProp (va_requestDetails a) ''requestId'' = Inr rid" and "truthy rid"
  shows "toStringJS rid \<in> processedRequestIds (snd (verifyNewRequest a s))"
  using assms by (simp add: verifyNewRequest_def)

lemma runVerifiers_reaches:
  assumes pure: "\<forall>f \<in> set vs. f = verifyNewRequest \<or> (\<forall>a s. snd (f a s) = s)"
    and split: "vs = pre @ verifyNewRequest # rest"
    and pre: "runVerifiers pre i a v s tr = (Continue v0, s0, tr0)"
    and rid: "getProp (va_requestDetails a) ''requestId'' = Inr rid" "truthy rid"
    and run: "runVerifiers vs i a v s tr = (p, s', tr')"
  shows "toStringJS rid \<in> processedRequestIds s'"
proof -
  obtain o1 s1 where f: "verifyNewRequest a s0 = (o1, s1)" by (cases "verifyNewRequest a s0")
  from verifyNewRequest_records [OF rid, of s0] f
  have m: "toStringJS rid \<in> processedRequestIds s1" by simp
  from run split runVerifiers_append [OF pre, of "verifyNewRequest # rest"]
  have r: "runVerifiers (verifyNewRequest # rest) (i + length pre) a v0 s0 tr0 = (p, s', tr')"
    by simp
  have purerest: "\<forall>f \<in> set rest. f = verifyNewRequest \<or> (\<forall>a s. snd (f a s) = s)"
    using pure split by simp
  show ?thesis
  proof (cases "\<exists>x. o1 = Returned x \<and> truthy x")
    case True
    then obtain x where x: "o1 = Returned x" "truthy x" by blast
    with r f have "runVerifiers rest (Suc (i + length pre)) a x s1
        (tr0 @ [VerifierCall (i + length pre) a]) = (p, s', tr')" by simp
    from runVerifiers_ids [OF purerest this] m show ?thesis by blast
  next
    case False
    with r f have "s' = s1" by (auto split: outcome.splits if_splits)
    with m show ?thesis by simp
  qed
qed

lemma run_ids_verifiers:
  assumes "handleGenericEvent h cb t rd p e b s = (r, s', tr)"
    and "runVerifiers (verifiers h) 0 (requestArgs t rd p e b) JNull s [] = (pv, sv, trv)"
  shows "processedRequestIds s' = processedRequestIds sv"
  using assms(1)
proof (cases rule: handleGenericEvent_cases)
  case verifier_stop
  with assms(2) show ?thesis by simp
next
  case (tab_throw verified err)
  with assms(2) show ?thesis by simp
next
  case (extractor_stop verified s1 tr1)
  with assms(2) recordTab_ids [OF extractor_stop(2)] show ?thesis by simp
next
  case (notified verified s1 tr1 details tr2)
  with assms(2) recordTab_ids [OF notified(2)] show ?thesis by simp
qed

lemma seen_run_dropped:
  assumes "verifyNewRequest \<in> set (verifiers h)"
    and "\<forall>f \<in> set (verifiers h). f = verifyNewRequest \<or> (\<forall>a s. snd (f a s) = s)"
    and "getProp rd ''requestId'' = Inr rid"
    and "toStringJS rid \<in> processedRequestIds s"
    and "handleGenericEvent h cb t rd p e b s = (r, s', tr)"
  shows "(\<forall>x. r = Returned x \<longrightarrow> x = JObj []) \<and> list_all (\<lambda>c. fst (callKind c) = 0) tr
       \<and> \<not> delivered tr"
proof -
  have i: "getProp (va_requestDetails (requestArgs t rd p e b)) ''requestId'' = Inr rid"
    using assms(3) by (simp add: requestArgs_def)
  have no: "\<forall>x s' tr'. runVerifiers (verifiers h) 0 (requestArgs t rd p e b) JNull s []
      \<noteq> (Continue x, s', tr')"
    using runVerifiers_seen [OF assms(2) assms(1) i assms(4)] by blast
  from not_passed_stops [OF assms(5) no]
  have a: "(\<forall>x. r = Returned x \<longrightarrow> x = JObj []) \<and> list_all (\<lambda>c. fst (callKind c) = 0) tr" .
  then have "\<not> delivered tr" by (auto simp: delivered_def list_all_iff list_ex_iff)
  with a show ?thesis by simp
qed

lemma calledOf_positive: "fs \<noteq> [] \<Longrightarrow> 0 < calledOf fs x"
  by (cases fs) (auto split: option.splits)

lemma delivered_append: "delivered (xs @ ys) \<longleftrightarrow> delivered xs \<or> delivered ys"
  by (simp add: delivered_def)

lemma deliver_delivers:
  assumes "deliver h cb a v d tr = (r, tr')" and "delivered tr \<or> nonblocking cb \<noteq> []"
  shows "delivered tr'"
proof -
  define calls where "calls = map (\<lambda>k. NonblockingCall k d) [0..<calledOf (nonblocking cb) d]"
  from deliver_exact [OF assms(1)] have "\<exists>rest. tr' = tr @ calls @ rest"
    unfolding calls_def by (intro exI) (rule conjunct1)
  then obtain rest where t: "tr' = tr @ calls @ rest" by (rule exE)
  have "delivered tr \<or> delivered calls"
  proof (cases "delivered tr")
    case True
    then show ?thesis by simp
  next
    case False
    with assms(2) have "nonblocking cb \<noteq> []" by simp
    then have "0 < calledOf (nonblocking cb) d" by (rule calledOf_positive)
    then have "NonblockingCall 0 d \<in> set calls" unfolding calls_def by auto
    then have "delivered calls"
      unfolding delivered_def list_ex_iff by (intro bexI [of _ "NonblockingCall 0 d"]) simp_all
    then show ?thesis by simp
  qed
  then show ?thesis unfolding t by (simp only: delivered_append) blast
qed

lemma notify_delivers:
  assumes "notify h cb a v d tr = (r, tr')"
    and "if va_blockingType a = ''blocking'' then blocking cb \<noteq> [] else nonblocking cb \<noteq> []"
  shows "delivered tr'"
proof (cases "va_blockingType a = ''blocking''")
  case False
  with assms have "deliver h cb a v d tr = (r, tr')" "nonblocking cb \<noteq> []"
    by (simp_all add: notify_def)
  from deliver_delivers [OF this(1)] this(2) show ?thesis by simp
next
  case True
  with assms(2) obtain callback others where c: "blocking cb = callback # others"
    by (cases "blocking cb") auto
  have b: "delivered (tr @ [BlockingCall d])" by (simp add: delivered_def)
  from assms(1) True c have "tr' = tr @ [BlockingCall d]
      \<or> deliver h cb a v d (tr @ [BlockingCall d]) = (r, tr')"
    by (auto simp: notify_def split: outcome.splits sum.splits bool.splits)
  with b deliver_delivers show ?thesis by blast
qed

lemma accepted_run_delivers:
  assumes run: "handleGenericEvent h cb t rd p e b s = (r, s', tr)"
    and rid: "getProp rd ''requestId'' = Inr rid"
    and v: "runVerifiers (verifiers h) 0 (requestArgs t rd p e b) JNull s [] = (Continue verified, sv, trv)"
    and x: "runExtractors (extractors h) 0 (requestArgs t rd p e b) verified (JObj []) trv
              = (Continue details, trx)"
    and l: "if b = ''blocking'' then blocking cb \<noteq> [] else nonblocking cb \<noteq> []"
  shows "delivered tr"
proof -
  from getProp_defined [OF rid, of "''tabId''"] obtain tab where "getProp rd ''tabId'' = Inr tab"
    by blast
  then have "\<exists>s2. recordTab p rd sv = Inr s2" by (simp add: recordTab_def)
  then obtain s2 where tab: "recordTab p rd sv = Inr s2" by blast
  from run v tab x have nt: "notify h cb (requestArgs t rd p e b) verified details trx = (r, tr)"
    by (simp add: handleGenericEvent_def requestArgs_def split: prod.splits)
  have "va_blockingType (requestArgs t rd p e b) = b" by (simp add: requestArgs_def)
  with notify_delivers [OF nt] l show ?thesis by simp
qed

text \<open>
  Claim C1, as amended. Take two runs of \<^verbatim>\<open>handleGenericEvent\<close> on requests with the same
  request id, for handlers whose verifier lists contain \<^verbatim>\<open>verifyNewRequest\<close> and whose
  other verifiers leave the module state alone, the second run starting in the state the
  first has left or in any state with at least those processed ids. At most one of the
  runs delivers an event to a listener. When the verifiers and the extractors of the
  first run accept the request and a listener is registered for its mode, exactly one
  run delivers, the first. Once the verifiers before \<^verbatim>\<open>verifyNewRequest\<close> have accepted a
  request with a truthy id, the first run leaves that id among the processed ids; and a
  run that starts with its request id among the processed ids is dropped by
  \<^verbatim>\<open>verifyNewRequest\<close>: it calls verifiers only, delivers nothing, and what it returns is an
  empty object. The processed request ids only grow.
\<close>

theorem request_id_consumed_once:
  assumes "verifyNewRequest \<in> set (verifiers h1)" and "verifyNewRequest \<in> set (verifiers h2)"
    and "\<forall>f \<in> set (verifiers h1) \<union> set (verifiers h2).
           f = verifyNewRequest \<or> (\<forall>a s. snd (f a s) = s)"
    and "getProp rd1 ''requestId'' = Inr rid1" and "getProp rd2 ''requestId'' = Inr rid2"
    and "toStringJS rid1 = toStringJS rid2"
    and "handleGenericEvent h1 cb1 t1 rd1 p1 e1 b1 s = (r1, s1, tr1)"
    and "processedRequestIds s1 \<subseteq> processedRequestIds later"
    and "handleGenericEvent h2 cb2 t2 rd2 p2 e2 b2 later = (r2, s2, tr2)"
  shows "\<not> (delivered tr1 \<and> delivered tr2)
       \<and> ((\<exists>v sv trv d trx.
              runVerifiers (verifiers h1) 0 (requestArgs t1 rd1 p1 e1 b1) JNull s []
                = (Continue v, sv, trv)
              \<and> runExtractors (extractors h1) 0 (requestArgs t1 rd1 p1 e1 b1) v (JObj []) trv
                  = (Continue d, trx))
           \<and> (if b1 = ''blocking'' then blocking cb1 \<noteq> [] else nonblocking cb1 \<noteq> [])
          \<longrightarrow> delivered tr1 \<and> \<not> delivered tr2)
       \<and> (truthy rid1
           \<and> (\<exists>pre rest v0 s0 tr0.
                 verifiers h1 = pre @ verifyNewRequest # rest
                 \<and> runVerifiers pre 0 (requestArgs t1 rd1 p1 e1 b1) JNull s []
                     = (Continue v0, s0, tr0))
          \<longrightarrow> toStringJS rid1 \<in> processedRequestIds s1)
       \<and> (toStringJS rid2 \<in> processedRequestIds later
          \<longrightarrow> (\<forall>x. r2 = Returned x \<longrightarrow> x = JObj [])
              \<and> list_all (\<lambda>c. fst (callKind c) = 0) tr2 \<and> \<not> delivered tr2)
       \<and> processedRequestIds s \<subseteq> processedRequestIds s1
       \<and> processedRequestIds later \<subseteq> processedRequestIds s2"
proof -
  let ?a1 = "requestArgs t1 rd1 p1 e1 b1"
  have p1: "\<forall>f \<in> set (verifiers h1). f = verifyNewRequest \<or> (\<forall>a s. snd (f a s) = s)"
    and p2: "\<forall>f \<in> set (verifiers h2). f = verifyNewRequest \<or> (\<forall>a s. snd (f a s) = s)"
    using assms(3) by auto
  have i1: "getProp (va_requestDetails ?a1) ''requestId'' = Inr rid1"
    using assms(4) by (simp add: requestArgs_def)
  have drop: "(\<forall>x. r2 = Returned x \<longrightarrow> x = JObj [])
              \<and> list_all (\<lambda>c. fst (callKind c) = 0) tr2 \<and> \<not> delivered tr2"
    if "toStringJS rid2 \<in> processedRequestIds later"
    using seen_run_dropped [OF assms(2) p2 assms(5) that assms(9)] .
  have passed: "toStringJS rid2 \<in> processedRequestIds later"
    if "runVerifiers (verifiers h1) 0 ?a1 JNull s [] = (Continue v, sv, trv)" for v sv trv
  proof -
    from runVerifiers_marks [OF p1 assms(1) i1 that]
    have "toStringJS rid1 \<in> processedRequestIds sv" .
    with run_ids_verifiers [OF assms(7) that] assms(6,8) show ?thesis by auto
  qed
  have once: "\<not> (delivered tr1 \<and> delivered tr2)"
  proof
    assume d: "delivered tr1 \<and> delivered tr2"
    with delivered_passed [OF assms(7)] obtain v sv trv where
      "runVerifiers (verifiers h1) 0 ?a1 JNull s [] = (Continue v, sv, trv)"
      by blast
    from drop [OF passed [OF this]] d show False by simp
  qed
  have one: "delivered tr1 \<and> \<not> delivered tr2"
    if "runVerifiers (verifiers h1) 0 ?a1 JNull s [] = (Continue v, sv, trv)"
      and "runExtractors (extractors h1) 0 ?a1 v (JObj []) trv = (Continue d, trx)"
      and "if b1 = ''blocking'' then blocking cb1 \<noteq> [] else nonblocking cb1 \<noteq> []"
    for v sv trv d trx
    using accepted_run_delivers [OF assms(7) assms(4) that] drop [OF passed [OF that(1)]]
    by simp
  have reached: "toStringJS rid1 \<in> processedRequestIds s1"
    if "truthy rid1" and "verifiers h1 = pre @ verifyNewRequest # rest"
      and "runVerifiers pre 0 ?a1 JNull s [] = (Continue v0, s0, tr0)"
    for pre rest v0 s0 tr0
  proof -
    obtain pv sv trv where v: "runVerifiers (verifiers h1) 0 ?a1 JNull s [] = (pv, sv, trv)"
      by (cases "runVerifiers (verifiers h1) 0 ?a1 JNull s []")
    from runVerifiers_reaches [OF p1 that(2) that(3) i1 that(1) v]
    have "toStringJS rid1 \<in> processedRequestIds sv" .
    with run_ids_verifiers [OF assms(7) v] show ?thesis by simp
  qed
  show ?thesis
  proof (intro conjI impI)
    show "\<not> (delivered tr1 \<and> delivered tr2)" by (rule once)
  next
    assume "(\<exists>v sv trv d trx.
              runVerifiers (verifiers h1) 0 ?a1 JNull s [] = (Continue v, sv, trv)
              \<and> runExtractors (extractors h1) 0 ?a1 v (JObj []) trv = (Continue d, trx))
           \<and> (if b1 = ''blocking'' then blocking cb1 \<noteq> [] else nonblocking cb1 \<noteq> [])"
    then obtain v sv trv d trx where
      "runVerifiers (verifiers h1) 0 ?a1 JNull s [] = (Continue v, sv, trv)"
      "runExtractors (extractors h1) 0 ?a1 v (JObj []) trv = (Continue d, trx)"
      "if b1 = ''blocking'' then blocking cb1 \<noteq> [] else nonblocking cb1 \<noteq> []"
      by blast
    from one [OF this] show "delivered tr1" and "\<not> delivered tr2" by simp_all
  next
    assume "truthy rid1
           \<and> (\<exists>pre rest v0 s0 tr0.
                 verifiers h1 = pre @ verifyNewRequest # rest
                 \<and> runVerifiers pre 0 ?a1 JNull s [] = (Continue v0, s0, tr0))"
    then obtain pre rest v0 s0 tr0 where "truthy rid1"
      "verifiers h1 = pre @ verifyNewRequest # rest"
      "runVerifiers pre 0 ?a1 JNull s [] = (Continue v0, s0, tr0)" by blast
    from reached [OF this] show "toStringJS rid1 \<in> processedRequestIds s1" .
  next
    assume a: "toStringJS rid2 \<in> processedRequestIds later"
    from drop [OF a] show "\<forall>x. r2 = Returned x \<longrightarrow> x = JObj []"
      and "list_all (\<lambda>c. fst (callKind c) = 0) tr2" and "\<not> delivered tr2" by simp_all
  next
    show "processedRequestIds s \<subseteq> processedRequestIds s1"
      by (rule handleGenericEvent_ids [OF p1 assms(7)])
    show "processedRequestIds later \<subseteq> processedRequestIds s2"
      by (rule handleGenericEvent_ids [OF p2 assms(9)])
  qed
qed

lemma postVote_first_run:
  "handleGenericEvent (reddit_postVote exampleRuntime) oneListener 5 postVoteRequest
     ''reddit'' ''postVote'' ''nonblocking'' startState
   = (Returned JUndefined, seen4712,
      map (\<lambda>i. VerifierCall i (requestArgs 5 postVoteRequest ''reddit'' ''postVote'' ''nonblocking''))
          [0, 1, 2, 3]
      @ [ExtractorCall 0
           (extractorArgs (requestArgs 5 postVoteRequest ''reddit'' ''postVote'' ''nonblocking'')
              (JObj []) (JObj [])),
         NonblockingCall 0 postVoteDetails])"
  by code_simp

lemma reddit_verifiers_keep_state:
  "\<forall>f \<in> set (verifiers (reddit_postVote rt)) \<union> set (verifiers (reddit_commentVote rt)).
     f = verifyNewRequest \<or> (\<forall>a s. snd (f a s) = s)"
  by (simp add: reddit_postVote_def reddit_commentVote_def verifyPostReq_def
      verifyReadableFormData_def verifyRedditPostVote_def verifyRedditCommentVote_def
      pureVerifier_state)

lemma postVote_later_run:
  "handleGenericEvent (reddit_postVote exampleRuntime) oneListener 6 postVoteRequest
     ''reddit'' ''postVote'' ''nonblocking'' seenLater
   = (Returned (JObj []), seenLater,
      map (\<lambda>i. VerifierCall i (requestArgs 6 postVoteRequest ''reddit'' ''postVote'' ''nonblocking''))
          [0, 1, 2])"
  by code_simp

lemma postVote_verifiers_run:
  "runVerifiers (verifiers (reddit_postVote exampleRuntime)) 0 postVoteArgs5 JNull startState []
   = (Continue (JObj []), seen4712, map (\<lambda>i. VerifierCall i postVoteArgs5) [0, 1, 2, 3])"
  by code_simp

lemma postVote_extractors_run:
  "runExtractors (extractors (reddit_postVote exampleRuntime)) 0 postVoteArgs5 (JObj []) (JObj [])
     (map (\<lambda>i. VerifierCall i postVoteArgs5) [0, 1, 2, 3])
   = (Continue postVoteDetails,
      map (\<lambda>i. VerifierCall i postVoteArgs5) [0, 1, 2, 3]
      @ [ExtractorCall 0 (extractorArgs postVoteArgs5 (JObj []) (JObj []))])"
  by code_simp

lemma invalidVote_first_run:
  "handleGenericEvent (reddit_postVote exampleRuntime) oneListener 5 invalidVoteRequest
        ''reddit'' ''postVote'' ''nonblocking'' startState
      = (Returned (JObj []), seen4713, map (\<lambda>i. VerifierCall i invalidVoteArgs5) [0, 1, 2, 3])"
  by code_simp

lemma invalidVote_second_run:
  "handleGenericEvent (reddit_postVote exampleRuntime) oneListener 6 invalidVoteRequest
        ''reddit'' ''postVote'' ''nonblocking'' seen4713
      = (Returned (JObj []), seen4713,
         map (\<lambda>i. VerifierCall i
                (requestArgs 6 invalidVoteRequest ''reddit'' ''postVote'' ''nonblocking''))
             [0, 1, 2])"
  by code_simp

lemma invalidVote_prefix_run:
  "runVerifiers [verifyPostReq exampleRuntime, verifyReadableFormData] 0 invalidVoteArgs5 JNull
     startState []
   = (Continue (JObj []), startState, map (\<lambda>i. VerifierCall i invalidVoteArgs5) [0, 1])"
  by code_simp

theorem request_id_consumed_once_witness:
  "verifyNewRequest \<in> set (verifiers (reddit_postVote exampleRuntime))
   \<and> getProp postVoteRequest ''requestId'' = Inr (JStr ''4712'')
   \<and> handleGenericEvent (reddit_postVote exampleRuntime) oneListener 5 postVoteRequest
        ''reddit'' ''postVote'' ''nonblocking'' startState
      = (Returned JUndefined, seen4712,
         map (\<lambda>i. VerifierCall i
                (requestArgs 5 postVoteRequest ''reddit'' ''postVote'' ''nonblocking''))
             [0, 1, 2, 3]
         @ [ExtractorCall 0
              (extractorArgs (requestArgs 5 postVoteRequest ''reddit'' ''postVote'' ''nonblocking'')
                 (JObj []) (JObj [])),
            NonblockingCall 0 postVoteDetails])
   \<and> runVerifiers (verifiers (reddit_postVote exampleRuntime)) 0 postVoteArgs5 JNull startState []
      = (Continue (JObj []), seen4712, map (\<lambda>i. VerifierCall i postVoteArgs5) [0, 1, 2, 3])
   \<and> runExtractors (extractors (reddit_postVote exampleRuntime)) 0 postVoteArgs5 (JObj [])
        (JObj []) (map (\<lambda>i. VerifierCall i postVoteArgs5) [0, 1, 2, 3])
      = (Continue postVoteDetails,
         map (\<lambda>i. VerifierCall i postVoteArgs5) [0, 1, 2, 3]
         @ [ExtractorCall 0 (extractorArgs postVoteArgs5 (JObj []) (JObj []))])
   \<and> length (nonblocking oneListener) = 1
   \<and> processedRequestIds seen4712 \<subseteq> processedRequestIds seenLater
   \<and> handleGenericEvent (reddit_postVote exampleRuntime) oneListener 6 postVoteRequest
        ''reddit'' ''postVote'' ''nonblocking'' seenLater
      = (Returned (JObj []), seenLater,
         map (\<lambda>i. VerifierCall i
                (requestArgs 6 postVoteRequest ''reddit'' ''postVote'' ''nonblocking''))
             [0, 1, 2])
   \<and> delivered
        (map (\<lambda>i. VerifierCall i
                (requestArgs 5 postVoteRequest ''reddit'' ''postVote'' ''nonblocking''))
             [0, 1, 2, 3]
         @ [ExtractorCall 0
              (extractorArgs (requestArgs 5 postVoteRequest ''reddit'' ''postVote'' ''nonblocking'')
                 (JObj []) (JObj [])),
            NonblockingCall 0 postVoteDetails])
   \<and> \<not> delivered
        (map (\<lambda>i. VerifierCall i
                (requestArgs 6 postVoteRequest ''reddit'' ''postVote'' ''nonblocking''))
             [0, 1, 2])
   \<and> processedRequestIds startState \<subseteq> processedRequestIds seen4712
   \<and> getProp invalidVoteRequest ''requestId'' = Inr (JStr ''4713'')
   \<and> truthy (JStr ''4713'')
   \<and> verifiers (reddit_postVote exampleRuntime)
      = [verifyPostReq exampleRuntime, verifyReadableFormData] @ verifyNewRequest
        # [verifyRedditPostVote exampleRuntime]
   \<and> runVerifiers [verifyPostReq exampleRuntime, verifyReadableFormData] 0 invalidVoteArgs5 JNull
        startState []
      = (Continue (JObj []), startState, map (\<lambda>i. VerifierCall i invalidVoteArgs5) [0, 1])
   \<and> handleGenericEvent (reddit_postVote exampleRuntime) oneListener 5 invalidVoteRequest
        ''reddit'' ''postVote'' ''nonblocking'' startState
      = (Returned (JObj []), seen4713, map (\<lambda>i. VerifierCall i invalidVoteArgs5) [0, 1, 2, 3])
   \<and> ''4713'' \<in> processedRequestIds seen4713
   \<and> handleGenericEvent (reddit_postVote exampleRuntime) oneListener 6 invalidVoteRequest
        ''reddit'' ''postVote'' ''nonblocking'' seen4713
      = (Returned (JObj []), seen4713,
         map (\<lambda>i. VerifierCall i
                (requestArgs 6 invalidVoteRequest ''reddit'' ''postVote'' ''nonblocking''))
             [0, 1, 2])
   \<and> list_all (\<lambda>c. fst (callKind c) = 0)
        (map (\<lambda>i. VerifierCall i
                (requestArgs 6 invalidVoteRequest ''reddit'' ''postVote'' ''nonblocking''))
             [0, 1, 2])"
proof -
  let ?h = "reddit_postVote exampleRuntime"
  have m: "verifyNewRequest \<in> set (verifiers ?h)"
    by (simp add: reddit_postVote_def)
  have i: "getProp postVoteRequest ''requestId'' = Inr (JStr ''4712'')"
    by (simp add: postVoteRequest_def)
  have p: "\<forall>f \<in> set (verifiers ?h) \<union> set (verifiers ?h).
     f = verifyNewRequest \<or> (\<forall>a s. snd (f a s) = s)"
    using reddit_verifiers_keep_state [of exampleRuntime] by simp
  have sub: "processedRequestIds seen4712 \<subseteq> processedRequestIds seenLater"
    by (simp add: seen4712_def seenLater_def)
  have l: "length (nonblocking oneListener) = 1" by (simp add: oneListener_def)
  then have l': "if ''nonblocking'' = ''blocking'' then blocking oneListener \<noteq> []
                 else nonblocking oneListener \<noteq> []" by auto
  note v = postVote_verifiers_run [unfolded postVoteArgs5_def]
  note x = postVote_extractors_run [unfolded postVoteArgs5_def]
  note T1 = request_id_consumed_once [OF m m p i i refl postVote_first_run sub postVote_later_run]
  have acc: "(\<exists>v sv trv d trx.
              runVerifiers (verifiers ?h) 0
                (requestArgs 5 postVoteRequest ''reddit'' ''postVote'' ''nonblocking'') JNull
                startState [] = (Continue v, sv, trv)
              \<and> runExtractors (extractors ?h) 0
                  (requestArgs 5 postVoteRequest ''reddit'' ''postVote'' ''nonblocking'') v
                  (JObj []) trv = (Continue d, trx))
           \<and> (if ''nonblocking'' = ''blocking'' then blocking oneListener \<noteq> []
                else nonblocking oneListener \<noteq> [])"
    by (intro conjI exI) (rule v, rule x, rule l')
  from T1 [THEN conjunct2, THEN conjunct1, THEN mp, OF acc] have one: "delivered
        (map (\<lambda>i. VerifierCall i
                (requestArgs 5 postVoteRequest ''reddit'' ''postVote'' ''nonblocking''))
             [0, 1, 2, 3]
         @ [ExtractorCall 0
              (extractorArgs (requestArgs 5 postVoteRequest ''reddit'' ''postVote'' ''nonblocking'')
                 (JObj []) (JObj [])),
            NonblockingCall 0 postVoteDetails])
      \<and> \<not> delivered
        (map (\<lambda>i. VerifierCall i
                (requestArgs 6 postVoteRequest ''reddit'' ''postVote'' ''nonblocking''))
             [0, 1, 2])" .
  from T1 [THEN conjunct2, THEN conjunct2, THEN conjunct2, THEN conjunct2, THEN conjunct1]
  have grow: "processedRequestIds startState \<subseteq> processedRequestIds seen4712" .
  have i2: "getProp invalidVoteRequest ''requestId'' = Inr (JStr ''4713'')"
    by (simp add: invalidVoteRequest_def)
  have t2: "truthy (JStr ''4713'')" by simp
  have vs: "verifiers ?h = [verifyPostReq exampleRuntime, verifyReadableFormData]
      @ verifyNewRequest # [verifyRedditPostVote exampleRuntime]"
    by (simp add: reddit_postVote_def)
  note pre = invalidVote_prefix_run [unfolded invalidVoteArgs5_def]
  note a = invalidVote_first_run [unfolded invalidVoteArgs5_def]
  note T2 = request_id_consumed_once [OF m m p i2 i2 refl a subset_refl invalidVote_second_run]
  have reach: "truthy (JStr ''4713'')
           \<and> (\<exists>pre rest v0 s0 tr0.
                 verifiers ?h = pre @ verifyNewRequest # rest
                 \<and> runVerifiers pre 0
                     (requestArgs 5 invalidVoteRequest ''reddit'' ''postVote'' ''nonblocking'')
                     JNull startState [] = (Continue v0, s0, tr0))"
    by (intro conjI exI) (rule t2, rule vs, rule pre)
  from T2 [THEN conjunct2, THEN conjunct2, THEN conjunct1, THEN mp, OF reach]
  have rec: "toStringJS (JStr ''4713'') \<in> processedRequestIds seen4713" .
  from T2 [THEN conjunct2, THEN conjunct2, THEN conjunct2, THEN conjunct1, THEN mp, OF rec]
  have dropped: "list_all (\<lambda>c. fst (callKind c) = 0)
        (map (\<lambda>i. VerifierCall i
                (requestArgs 6 invalidVoteRequest ''reddit'' ''postVote'' ''nonblocking''))
             [0, 1, 2])"
    by (rule conjunct2 [THEN conjunct1])
  from rec have rec': "''4713'' \<in> processedRequestIds seen4713" by simp
  note d1 = one [THEN conjunct1] and d2 = one [THEN conjunct2]
  from m i postVote_first_run postVote_verifiers_run postVote_extractors_run l sub
    postVote_later_run d1 d2 grow i2 t2 vs invalidVote_prefix_run invalidVote_first_run rec'
    invalidVote_second_run dropped
  show ?thesis by (intro conjI)
qed

text \<open>
  The claim as stated fails: a vote request without the \<^verbatim>\<open>dir\<close> field passes
  \<^verbatim>\<open>verifyNewRequest\<close> and is then rejected by \<^verbatim>\<open>verifyRedditPostVote\<close>; run twice, it is
  delivered by neither run, although a listener is registered.
\<close>

theorem exactly_one_counterexample:
  "verifyNewRequest \<in> set (verifiers (reddit_postVote exampleRuntime))
   \<and> handleGenericEvent (reddit_postVote exampleRuntime) oneListener 5 invalidVoteRequest
        ''reddit'' ''postVote'' ''nonblocking'' startState
      = (Returned (JObj []), seen4713,
         map (\<lambda>i. VerifierCall i
                (requestArgs 5 invalidVoteRequest ''reddit'' ''postVote'' ''nonblocking''))
             [0, 1, 2, 3])
   \<and> handleGenericEvent (reddit_postVote exampleRuntime) oneListener 6 invalidVoteRequest
        ''reddit'' ''postVote'' ''nonblocking'' seen4713
      = (Returned (JObj []), seen4713,
         map (\<lambda>i. VerifierCall i
                (requestArgs 6 invalidVoteRequest ''reddit'' ''postVote'' ''nonblocking''))
             [0, 1, 2])
   \<and> \<not> delivered
        (map (\<lambda>i. VerifierCall i
                (requestArgs 5 invalidVoteRequest ''reddit'' ''postVote'' ''nonblocking''))
             [0, 1, 2, 3])
   \<and> \<not> delivered
        (map (\<lambda>i. VerifierCall i
                (requestArgs 6 invalidVoteRequest ''reddit'' ''postVote'' ''nonblocking''))
             [0, 1, 2])
   \<and> length (nonblocking oneListener) = 1"
proof -
  have m: "verifyNewRequest \<in> set (verifiers (reddit_postVote exampleRuntime))"
    by (simp add: reddit_postVote_def)
  have a: "handleGenericEvent (reddit_postVote exampleRuntime) oneListener 5 invalidVoteRequest
        ''reddit'' ''postVote'' ''nonblocking'' startState
      = (Returned (JObj []), seen4713,
         map (\<lambda>i. VerifierCall i
                (requestArgs 5 invalidVoteRequest ''reddit'' ''postVote'' ''nonblocking''))
             [0, 1, 2, 3])"
    by code_simp
  have b: "handleGenericEvent (reddit_postVote exampleRuntime) oneListener 6 invalidVoteRequest
        ''reddit'' ''postVote'' ''nonblocking'' seen4713
      = (Returned (JObj []), seen4713,
         map (\<lambda>i. VerifierCall i
                (requestArgs 6 invalidVoteRequest ''reddit'' ''postVote'' ''nonblocking''))
             [0, 1, 2])"
    by code_simp
  have c: "\<not> delivered
        (map (\<lambda>i. VerifierCall i
                (requestArgs 5 invalidVoteRequest ''reddit'' ''postVote'' ''nonblocking''))
             [0, 1, 2, 3])"
    and d: "\<not> delivered
        (map (\<lambda>i. VerifierCall i
                (requestArgs 6 invalidVoteRequest ''reddit'' ''postVote'' ''nonblocking''))
             [0, 1, 2])"
    by (simp_all add: delivered_def)
  have e: "length (nonblocking oneListener) = 1" by (simp add: oneListener_def)
  from m a b c d e show ?thesis by (intro conjI)
qed

text \<open>
  Claim C2 (a defect of the code). The handlers of the Reddit post votes and comment votes
  listen to the same URL pattern and tell their events apart by the prefix of the voted
  id, and both run \<^verbatim>\<open>verifyNewRequest\<close> before the verifier that reads the prefix. A vote
  on a comment is first seen by the post-vote handler, which records the request id and
  then rejects the request; the comment-vote handler then drops it as a duplicate. Run
  alone, the comment-vote handler delivers it.
\<close>

theorem comment_vote_dropped:
  "urls (reddit_postVote exampleRuntime) = urls (reddit_commentVote exampleRuntime)
   \<and> verifiers (reddit_postVote exampleRuntime) ! 2 = verifyNewRequest
   \<and> verifiers (reddit_postVote exampleRuntime) ! 3 = verifyRedditPostVote exampleRuntime
   \<and> verifiers (reddit_commentVote exampleRuntime) ! 2 = verifyNewRequest
   \<and> verifiers (reddit_commentVote exampleRuntime) ! 3 = verifyRedditCommentVote exampleRuntime
   \<and> handleGenericEvent (reddit_postVote exampleRuntime) oneListener 5 commentVoteRequest
        ''reddit'' ''postVote'' ''nonblocking'' startState
      = (Returned (JObj []), seen4711,
         map (\<lambda>i. VerifierCall i
                (requestArgs 5 commentVoteRequest ''reddit'' ''postVote'' ''nonblocking''))
             [0, 1, 2, 3])
   \<and> handleGenericEvent (reddit_commentVote exampleRuntime) oneListener 5 commentVoteRequest
        ''reddit'' ''commentVote'' ''nonblocking'' seen4711
      = (Returned (JObj []), seen4711,
         map (\<lambda>i. VerifierCall i
                (requestArgs 5 commentVoteRequest ''reddit'' ''commentVote'' ''nonblocking''))
             [0, 1, 2])
   \<and> delivered (snd (snd
        (handleGenericEvent (reddit_commentVote exampleRuntime) oneListener 5 commentVoteRequest
           ''reddit'' ''commentVote'' ''nonblocking'' startState)))"
proof -
  have u: "urls (reddit_postVote exampleRuntime) = urls (reddit_commentVote exampleRuntime)"
    and v: "verifiers (reddit_postVote exampleRuntime) ! 2 = verifyNewRequest"
      "verifiers (reddit_postVote exampleRuntime) ! 3 = verifyRedditPostVote exampleRuntime"
      "verifiers (reddit_commentVote exampleRuntime) ! 2 = verifyNewRequest"
      "verifiers (reddit_commentVote exampleRuntime) ! 3 = verifyRedditCommentVote exampleRuntime"
    by (simp_all add: reddit_postVote_def reddit_commentVote_def)
  have a: "handleGenericEvent (reddit_postVote exampleRuntime) oneListener 5 commentVoteRequest
        ''reddit'' ''postVote'' ''nonblocking'' startState
      = (Returned (JObj []), seen4711,
         map (\<lambda>i. VerifierCall i
                (requestArgs 5 commentVoteRequest ''reddit'' ''postVote'' ''nonblocking''))
             [0, 1, 2, 3])"
    by code_simp
  have b: "handleGenericEvent (reddit_commentVote exampleRuntime) oneListener 5 commentVoteRequest
        ''reddit'' ''commentVote'' ''nonblocking'' seen4711
      = (Returned (JObj []), seen4711,
         map (\<lambda>i. VerifierCall i
                (requestArgs 5 commentVoteRequest ''reddit'' ''commentVote'' ''nonblocking''))
             [0, 1, 2])"
    by code_simp
  have c: "delivered (snd (snd
        (handleGenericEvent (reddit_commentVote exampleRuntime) oneListener 5 commentVoteRequest
           ''reddit'' ''commentVote'' ''nonblocking'' startState)))"
    by code_simp
  from u v a b c show ?thesis by (intro conjI)
qed

subsection \<open>The Facebook lookup\<close>

lemma findFieldFacebook_enterArray:
  "findFieldFacebook rt object fieldName True n = findFieldFacebook rt object fieldName False n"
proof (induction n arbitrary: object)
  case 0
  show ?case by simp
next
  case (Suc n)
  have kids: "map (\<lambda>subObject. findFieldFacebook rt (snd subObject) fieldName True n) (ownProps object)
      = map (\<lambda>subObject. findFieldFacebook rt (snd subObject) fieldName False n) (ownProps object)"
    using Suc.IH by simp
  show ?case
    by (simp add: Let_def Suc.IH kids split: option.splits)
qed

text \<open>
  Claim C7 (a defect of the code). The lookup is bounded by its recursion level: at level
  zero it returns null, and it is a total function. It gives the same result with and
  without \<^verbatim>\<open>enterArray\<close>: the first element of an array-valued field is never unwrapped,
  since the assignment that unwraps it is overwritten by the next one. For the form data
  of the react request the lookup of the friendly name returns the array of values, and
  for a field with two values it returns both.
\<close>

theorem findFieldFacebook_no_unwrap:
  "findFieldFacebook rt object fieldName enterArray 0 = JNull
   \<and> findFieldFacebook rt object fieldName True n = findFieldFacebook rt object fieldName False n
   \<and> findFieldFacebook exampleRuntime reactRequest ''fb_api_req_friendly_name'' True 5
       = JArr [JStr ''UFI2FeedbackReactMutation'']
   \<and> findFieldFacebook exampleRuntime (JObj [(''a'', JArr [JStr ''x'', JStr ''y''])]) ''a'' True 5
       = JArr [JStr ''x'', JStr ''y'']"
proof -
  have a: "findFieldFacebook exampleRuntime reactRequest ''fb_api_req_friendly_name'' True 5
       = JArr [JStr ''UFI2FeedbackReactMutation'']"
    by code_simp
  have b: "findFieldFacebook exampleRuntime (JObj [(''a'', JArr [JStr ''x'', JStr ''y''])]) ''a'' True 5
       = JArr [JStr ''x'', JStr ''y'']"
    by code_simp
  from a b findFieldFacebook_enterArray [of rt object fieldName n] show ?thesis by simp
qed

subsection \<open>The Facebook react\<close>

lemma reactionTypeOf_two: "reactionTypeOf rt (JNum 2) = ''love''"
  by (simp add: reactionTypeOf_def looseEqNum_def)

text \<open>
  What the verifier tests is \<^verbatim>\<open>includes\<close> on the result of the lookup. Take a request
  whose form data has a \<^verbatim>\<open>fb_api_req_friendly_name\<close> field, for which \<^verbatim>\<open>includes\<close> of
  \<^verbatim>\<open>UFI2FeedbackReactMutation\<close> holds of the looked-up value, and in whose \<^verbatim>\<open>variables\<close>
  the lookup of \<^verbatim>\<open>feedback_reaction\<close> yields 2. Then \<^verbatim>\<open>verifyFacebookReact\<close> accepts it,
  and \<^verbatim>\<open>extractFacebookReact\<close>, handed the verifier's result, returns an event whose
  \<^verbatim>\<open>reactionType\<close> is \<^verbatim>\<open>love\<close>. The looked-up value of a form field is the array of its
  values, on which \<^verbatim>\<open>includes\<close> is membership: this covers the requests whose friendly
  name is exactly the name of the mutation.
\<close>

lemma facebook_react_accepts:
  assumes "va_requestDetails a = requestDetails"
    and "formDataOf requestDetails = Inr formData"
    and "getProp formData ''fb_api_req_friendly_name'' = Inr present" and "truthy present"
    and "includesJS (findFieldFacebook rt requestDetails ''fb_api_req_friendly_name'' True 5)
           ''UFI2FeedbackReactMutation'' = Inr True"
    and "findFieldFacebook rt (findFieldFacebook rt formData ''variables'' True 5)
           ''feedback_reaction'' True 5 = JNum 2"
  shows "\<exists>verified.
           verifyFacebookReact rt a s = (Returned verified, s) \<and> truthy verified
           \<and> (\<forall>ea. ea_verified ea = verified \<longrightarrow>
                 (\<exists>details. extractFacebookReact rt ea = Returned details \<and> truthy details
                    \<and> getProp details ''reactionType'' = Inr (JStr ''love'')
                    \<and> getProp details ''eventType'' = Inr (JStr ''react'')))"
proof -
  let ?verified = "JObj [(''reactionRequest'', findFieldFacebook rt formData ''variables'' True 5)]"
  have v: "verifyFacebookReact rt a s = (Returned ?verified, s)"
    using assms(1-5)
    by (simp add: verifyFacebookReact_def pureVerifier_def andThen_def Let_def)
  have x: "\<exists>details. extractFacebookReact rt ea = Returned details \<and> truthy details
                    \<and> getProp details ''reactionType'' = Inr (JStr ''love'')
                    \<and> getProp details ''eventType'' = Inr (JStr ''react'')"
    if "ea_verified ea = ?verified" for ea
    using that assms(6)
    by (simp add: extractFacebookReact_def settled_def andThen_def Let_def reactionTypeOf_two)
  have "truthy ?verified" by simp
  with v x show ?thesis by blast
qed

lemma facebook_react_accepts_example:
  "va_requestDetails (requestArgs 5 reactRequest ''facebook'' ''react'' ''nonblocking'') = reactRequest
   \<and> formDataOf reactRequest
      = Inr (JObj [(''fb_api_req_friendly_name'', JArr [JStr ''UFI2FeedbackReactMutation'']),
                   (''variables'', JArr [JStr reactVariables])])
   \<and> includesJS (findFieldFacebook exampleRuntime reactRequest ''fb_api_req_friendly_name'' True 5)
        ''UFI2FeedbackReactMutation'' = Inr True
   \<and> verifyFacebookReact exampleRuntime
        (requestArgs 5 reactRequest ''facebook'' ''react'' ''nonblocking'') startState
      = (Returned reactVerified, startState)
   \<and> extractFacebookReact exampleRuntime
        (extractorArgs (requestArgs 5 reactRequest ''facebook'' ''react'' ''nonblocking'')
           reactVerified (JObj []))
      = Returned reactDetails
   \<and> getProp reactDetails ''reactionType'' = Inr (JStr ''love'')
   \<and> (\<exists>details. extractFacebookReact exampleRuntime
          (extractorArgs (requestArgs 5 reactRequest ''facebook'' ''react'' ''nonblocking'')
             reactVerified (JObj [])) = Returned details
        \<and> getProp details ''reactionType'' = Inr (JStr ''love''))
   \<and> snd (snd (handleGenericEvent (facebook_react exampleRuntime) oneListener 5 reactRequest
        ''facebook'' ''react'' ''nonblocking'' startState))
      = map (\<lambda>i. VerifierCall i (requestArgs 5 reactRequest ''facebook'' ''react'' ''nonblocking''))
            [0, 1, 2, 3]
        @ [ExtractorCall 0
             (extractorArgs (requestArgs 5 reactRequest ''facebook'' ''react'' ''nonblocking'')
                reactVerified (JObj [])),
           NonblockingCall 0 reactDetails]"
proof -
  let ?a = "requestArgs 5 reactRequest ''facebook'' ''react'' ''nonblocking''"
  let ?fd = "JObj [(''fb_api_req_friendly_name'', JArr [JStr ''UFI2FeedbackReactMutation'']),
                   (''variables'', JArr [JStr reactVariables])]"
  have h1: "va_requestDetails ?a = reactRequest" by (simp add: requestArgs_def)
  have h2: "formDataOf reactRequest = Inr ?fd"
    by (simp add: formDataOf_def getPath_def andThen_def reactRequest_def)
  have h3: "getProp ?fd ''fb_api_req_friendly_name'' = Inr (JArr [JStr ''UFI2FeedbackReactMutation''])"
    by simp
  have h4: "truthy (JArr [JStr ''UFI2FeedbackReactMutation''])" by simp
  have h5: "includesJS (findFieldFacebook exampleRuntime reactRequest ''fb_api_req_friendly_name'' True 5)
        ''UFI2FeedbackReactMutation'' = Inr True"
    by code_simp
  have h6: "findFieldFacebook exampleRuntime (findFieldFacebook exampleRuntime ?fd ''variables'' True 5)
           ''feedback_reaction'' True 5 = JNum 2"
    by code_simp
  have v: "verifyFacebookReact exampleRuntime ?a startState = (Returned reactVerified, startState)"
    by code_simp
  have x: "extractFacebookReact exampleRuntime (extractorArgs ?a reactVerified (JObj []))
      = Returned reactDetails"
    by code_simp
  have l: "getProp reactDetails ''reactionType'' = Inr (JStr ''love'')"
    by (simp add: reactDetails_def)
  have e: "ea_verified (extractorArgs ?a reactVerified (JObj [])) = reactVerified"
    by (simp add: extractorArgs_def)
  from facebook_react_accepts [OF h1 h2 h3 h4 h5 h6, of startState] v e
  have w: "\<exists>details. extractFacebookReact exampleRuntime
          (extractorArgs ?a reactVerified (JObj [])) = Returned details
        \<and> getProp details ''reactionType'' = Inr (JStr ''love'')"
    by auto
  have r: "snd (snd (handleGenericEvent (facebook_react exampleRuntime) oneListener 5 reactRequest
        ''facebook'' ''react'' ''nonblocking'' startState))
      = map (\<lambda>i. VerifierCall i ?a) [0, 1, 2, 3]
        @ [ExtractorCall 0 (extractorArgs ?a reactVerified (JObj [])),
           NonblockingCall 0 reactDetails]"
    by (simp add: react_run)
  from h1 h2 h5 v x l w r show ?thesis by (intro conjI)
qed

text \<open>
  Claim C8 (a defect of the code). A react request whose \<^verbatim>\<open>fb_api_req_friendly_name\<close> field
  contains \<^verbatim>\<open>UFI2FeedbackReactMutation\<close> without being equal to it, and whose
  \<^verbatim>\<open>feedback_reaction\<close> resolves to 2, is rejected by \<^verbatim>\<open>verifyFacebookReact\<close>: the lookup
  returns the array of the field's values instead of its first element, so \<^verbatim>\<open>includes\<close>
  tests membership in that array and not containment in the name. The run of the
  pipeline on this request ends in the verifier step and delivers nothing. On the name
  itself, which the lookup was to unwrap, \<^verbatim>\<open>includes\<close> holds.
\<close>

theorem facebook_react_contained_name_rejected:
  "getPath longNameReactRequest [''requestBody'', ''formData'', ''fb_api_req_friendly_name'']
     = Inr (JArr [JStr ''UFI2FeedbackReactMutation_v2''])
   \<and> substringOf ''UFI2FeedbackReactMutation'' ''UFI2FeedbackReactMutation_v2''
   \<and> formDataOf longNameReactRequest
       = Inr (JObj [(''fb_api_req_friendly_name'', JArr [JStr ''UFI2FeedbackReactMutation_v2'']),
                    (''variables'', JArr [JStr reactVariables])])
   \<and> findFieldFacebook exampleRuntime
        (findFieldFacebook exampleRuntime
           (JObj [(''fb_api_req_friendly_name'', JArr [JStr ''UFI2FeedbackReactMutation_v2'']),
                  (''variables'', JArr [JStr reactVariables])]) ''variables'' True 5)
        ''feedback_reaction'' True 5 = JNum 2
   \<and> findFieldFacebook exampleRuntime longNameReactRequest ''fb_api_req_friendly_name'' True 5
       = JArr [JStr ''UFI2FeedbackReactMutation_v2'']
   \<and> includesJS (JArr [JStr ''UFI2FeedbackReactMutation_v2'']) ''UFI2FeedbackReactMutation''
       = Inr False
   \<and> includesJS (JStr ''UFI2FeedbackReactMutation_v2'') ''UFI2FeedbackReactMutation'' = Inr True
   \<and> verifyFacebookReact exampleRuntime longNameReactArgs startState
       = (Returned JNull, startState)
   \<and> handleGenericEvent (facebook_react exampleRuntime) oneListener 5 longNameReactRequest
        ''facebook'' ''react'' ''nonblocking'' startState
       = (Returned (JObj []),
          \<lparr>processedRequestIds = {''1003''}, facebookTabId = JNum (- 1)\<rparr>,
          map (\<lambda>i. VerifierCall i longNameReactArgs) [0, 1, 2, 3])
   \<and> \<not> delivered (map (\<lambda>i. VerifierCall i longNameReactArgs) [0, 1, 2, 3])"
proof (intro conjI)
  show "getPath longNameReactRequest [''requestBody'', ''formData'', ''fb_api_req_friendly_name'']
     = Inr (JArr [JStr ''UFI2FeedbackReactMutation_v2''])"
    by code_simp
  show "substringOf ''UFI2FeedbackReactMutation'' ''UFI2FeedbackReactMutation_v2''"
    by code_simp
  show "formDataOf longNameReactRequest
       = Inr (JObj [(''fb_api_req_friendly_name'', JArr [JStr ''UFI2FeedbackReactMutation_v2'']),
                    (''variables'', JArr [JStr reactVariables])])"
    by code_simp
  show "findFieldFacebook exampleRuntime
        (findFieldFacebook exampleRuntime
           (JObj [(''fb_api_req_friendly_name'', JArr [JStr ''UFI2FeedbackReactMutation_v2'']),
                  (''variables'', JArr [JStr reactVariables])]) ''variables'' True 5)
        ''feedback_reaction'' True 5 = JNum 2"
    by code_simp
  show "findFieldFacebook exampleRuntime longNameReactRequest ''fb_api_req_friendly_name'' True 5
       = JArr [JStr ''UFI2FeedbackReactMutation_v2'']"
    by code_simp
  show "includesJS (JArr [JStr ''UFI2FeedbackReactMutation_v2'']) ''UFI2FeedbackReactMutation''
       = Inr False"
    by code_simp
  show "includesJS (JStr ''UFI2FeedbackReactMutation_v2'') ''UFI2FeedbackReactMutation'' = Inr True"
    by code_simp
  show "verifyFacebookReact exampleRuntime longNameReactArgs startState
       = (Returned JNull, startState)"
    by code_simp
  show "handleGenericEvent (facebook_react exampleRuntime) oneListener 5 longNameReactRequest
        ''facebook'' ''react'' ''nonblocking'' startState
       = (Returned (JObj []),
          \<lparr>processedRequestIds = {''1003''}, facebookTabId = JNum (- 1)\<rparr>,
          map (\<lambda>i. VerifierCall i longNameReactArgs) [0, 1, 2, 3])"
    by code_simp
  show "\<not> delivered (map (\<lambda>i. VerifierCall i longNameReactArgs) [0, 1, 2, 3])"
    by (simp add: delivered_def)
qed

end
